theory Spec2Isabelle
  imports Complex_Main "HOL-Library.Sublist"
begin

section \<open>Text operations of the Python runtime\<close>

text \<open>
  A Python string is a list of Unicode code points. \<open>ascii\<close> turns a literal of the
  source into such a list.
\<close>

type_synonym str = "nat list"

definition ascii :: "string \<Rightarrow> str" where
  "ascii s = map of_char s"

text \<open>
  \<^verbatim>\<open>str.lower\<close>. On text without a character beyond ASCII it maps the letters A to Z
  to a to z and changes nothing else. On any other text its result comes from the case
  tables of the Unicode database of the interpreter, which are not part of the source:
  they are the parameter \<open>unicode_lower\<close>, the function that \<^verbatim>\<open>str.lower\<close> is on
  such text.
\<close>

definition lower_ascii :: "nat \<Rightarrow> nat" where
  "lower_ascii c = (if 65 \<le> c \<and> c \<le> 90 then c + 32 else c)"

definition lower :: "(str \<Rightarrow> str) \<Rightarrow> str \<Rightarrow> str" where
  "lower unicode_lower s =
     (if list_all (\<lambda>c. c < 128) s then map lower_ascii s else unicode_lower s)"

text \<open>
  \<^verbatim>\<open>str.strip\<close> without argument removes from both ends the characters for which
  \<^verbatim>\<open>str.isspace\<close> holds: the code points 9 to 13, 28 to 32, 133, 160, 5760, 8192 to
  8202, 8232, 8233, 8239, 8287 and 12288.
\<close>

definition is_space :: "nat \<Rightarrow> bool" where
  "is_space c =
     ((9 \<le> c \<and> c \<le> 13) \<or> (28 \<le> c \<and> c \<le> 32) \<or> c = 133 \<or> c = 160 \<or> c = 5760
      \<or> (8192 \<le> c \<and> c \<le> 8202) \<or> c = 8232 \<or> c = 8233 \<or> c = 8239 \<or> c = 8287
      \<or> c = 12288)"

definition strip :: "str \<Rightarrow> str" where
  "strip s = rev (dropWhile is_space (rev (dropWhile is_space s)))"

text \<open>\<open>str_in needle hay\<close> is Python's \<^verbatim>\<open>needle in hay\<close> on strings.\<close>

fun str_in :: "str \<Rightarrow> str \<Rightarrow> bool" where
  "str_in needle [] = (needle = [])"
| "str_in needle (c # cs) = (prefix needle (c # cs) \<or> str_in needle cs)"

text \<open>\<open>or_empty v\<close> is \<^verbatim>\<open>(v or '')\<close> for a value that is a string or \<^verbatim>\<open>None\<close>.\<close>

definition or_empty :: "str option \<Rightarrow> str" where
  "or_empty v = (case v of None \<Rightarrow> [] | Some s \<Rightarrow> s)"

text \<open>Decimal rendering of an integer, as the f-string \<^verbatim>\<open>f'{code}'\<close> produces it.\<close>

fun digits :: "nat \<Rightarrow> str" where
  "digits n = (if n < 10 then [48 + n] else digits (n div 10) @ [48 + n mod 10])"

declare digits.simps [simp del]

definition str_int :: "int \<Rightarrow> str" where
  "str_int i = (if i < 0 then 45 # digits (nat (- i)) else digits (nat i))"

definition str_code :: "int option \<Rightarrow> str" where
  "str_code code = (case code of None \<Rightarrow> ascii ''None'' | Some n \<Rightarrow> str_int n)"

section \<open>Data model\<close>

text \<open>The \<^verbatim>\<open>rate_limit\<close> section of the configuration file.\<close>

record config =
  emails_per_batch :: int
  batch_delay :: int
  delay_between_emails :: real

text \<open>The attributes of \<^verbatim>\<open>NewsletterSender\<close> that change during a run.\<close>

record sender =
  sent_count :: int
  last_send_time :: real
  last_successful_email :: "str option"
  stop_on_error :: bool

definition init_sender :: sender where
  "init_sender = \<lparr>sent_count = 0, last_send_time = 0, last_successful_email = None,
                  stop_on_error = True\<rparr>"

text \<open>
  A row of the recipient file as \<^verbatim>\<open>csv.DictReader\<close> yields it. The header row of
  that file has an \<^verbatim>\<open>email\<close> column, so the key is present; its value is
  \<^verbatim>\<open>None\<close> for a row too short to reach the column.
\<close>

record recipient =
  email :: "str option"

text \<open>
  A data row of the results file: \<^verbatim>\<open>writer.writerow([email, status, error_message])\<close>.
  The status is always one of the literals of the source.
\<close>

record outcome_record =
  address :: str
  status :: string
  detail :: str

text \<open>
  What the run does to the outside world, in order: \<^verbatim>\<open>time.sleep\<close>, building and
  handing a message to \<^verbatim>\<open>server.send_message\<close> (lines 226 to 238), writing a results
  row, and reopening the session (lines 255 and 256).
\<close>

datatype event =
  Sleep real
| Send_message "str option"
| Write_row outcome_record
| Reconnect

text \<open>
  The reply of the server inside a rejection, as lines 269 and 308 read it: bytes that
  \<^verbatim>\<open>decode()\<close> turns into text (or a value that \<^verbatim>\<open>str\<close> renders), or bytes that
  are not UTF-8, for which \<^verbatim>\<open>decode()\<close> raises \<^verbatim>\<open>UnicodeDecodeError\<close> with the
  given message.
\<close>

datatype reply =
  Reply str
| Undecodable str

text \<open>
  The payload of \<^verbatim>\<open>SMTPRecipientsRefused\<close> as lines 261 to 273 read it: the first
  entry of \<^verbatim>\<open>e.recipients\<close> is a tuple of a code and a reply (the empty text when
  the tuple has no second component), or something else that is rendered with
  \<^verbatim>\<open>str\<close>, or there is no entry and \<^verbatim>\<open>str(e)\<close> is used.
\<close>

datatype refused_info =
  Info_tuple int reply
| Info_other str
| No_info str

text \<open>What lines 226 to 238 of one attempt end in.\<close>

datatype send_result =
  Sent
| Server_disconnected str
| Recipients_refused refused_info
| Data_error "int option" reply
| Other_exception str

text \<open>
  What the environment contributes to one attempt: the reading of \<^verbatim>\<open>time.time()\<close>
  inside the rate limiter (line 69), the result of the send, the reading of
  \<^verbatim>\<open>time.time()\<close> after a successful send (line 245), and the exception that
  reopening the session raises, if any.
\<close>

record attempt_env =
  clock :: real
  result :: send_result
  clock_after :: real
  reconnect :: "str option"

text \<open>
  How one iteration of the attempt loop ends. The flags \<^verbatim>\<open>email_sent_successfully\<close>
  and \<^verbatim>\<open>non_fatal_skip\<close> are only ever set right before a \<^verbatim>\<open>break\<close>, so
  \<open>Break\<close> carries their values and they are both false everywhere else.
\<close>

datatype step =
  Continue
| Break bool bool
| Return
| Raise str

text \<open>How the processing of one recipient, and of the whole recipient loop, ends.\<close>

datatype flow =
  Next
| Returned
| Raised str

section \<open>The rate limiter\<close>

definition rate_limit :: "config \<Rightarrow> real \<Rightarrow> sender \<Rightarrow> event list \<times> sender" where
  "rate_limit cfg current_time s =
     (if sent_count s \<ge> emails_per_batch cfg
      then (replicate (nat (batch_delay cfg)) (Sleep 1), s\<lparr>sent_count := 0\<rparr>)
      else
        let time_since_last = current_time - last_send_time s in
        if time_since_last < delay_between_emails cfg
        then ([Sleep (delay_between_emails cfg - time_since_last)], s)
        else ([], s))"

section \<open>The dispatch engine\<close>

definition retries :: nat where
  "retries = 3"

definition code_detail :: "int option \<Rightarrow> str \<Rightarrow> str" where
  "code_detail code message = strip (str_code code @ ascii '' '' @ message)"

text \<open>
  Lines 275 to 303 and, word for word the same, lines 310 to 338: what the two typed
  handlers do once code and message are extracted.
\<close>

definition rejection_policy :: "(str \<Rightarrow> str) \<Rightarrow> sender \<Rightarrow> recipient \<Rightarrow> int option \<Rightarrow> str \<Rightarrow> event list \<times> step" where
  "rejection_policy unicode_lower s r code message =
     (if code = Some 556
      then ([Write_row \<lparr>address = or_empty (email r), status = ''skipped'',
                        detail = code_detail code message\<rparr>], Break False True)
      else if str_in (ascii ''policy violation'') (lower unicode_lower message)
      then ([Write_row \<lparr>address = or_empty (email r), status = ''skipped_policy_violation'',
                        detail = code_detail code message\<rparr>, Sleep 600], Break False True)
      else ([Write_row \<lparr>address = or_empty (email r), status = ''failed'',
                        detail = code_detail code message\<rparr>],
            if stop_on_error s then Return else Break False False))"

text \<open>\<^verbatim>\<open>raw_msg.decode()\<close>: the text, or the exception (\<open>Inl\<close>, with its message).\<close>

definition decode :: "reply \<Rightarrow> str + str" where
  "decode raw_msg = (case raw_msg of Reply message \<Rightarrow> Inr message | Undecodable err \<Rightarrow> Inl err)"

text \<open>Lines 261 to 273: code and message of a refusal, unless decoding the reply raises.\<close>

definition refused_code_message :: "refused_info \<Rightarrow> str + int option \<times> str" where
  "refused_code_message info =
     (case info of
        Info_tuple code raw_msg \<Rightarrow>
          (case decode raw_msg of
             Inl err \<Rightarrow> Inl err
           | Inr message \<Rightarrow> Inr (Some code, message))
      | Info_other message \<Rightarrow> Inr (None, message)
      | No_info message \<Rightarrow> Inr (None, message))"

text \<open>
  Lines 259 to 303 and 304 to 338. The reply is decoded inside the \<^verbatim>\<open>except\<close> clause,
  so an exception of the decoding is handled by no clause of the same \<^verbatim>\<open>try\<close> and
  leaves the recipient loop, before any row is written.
\<close>

definition on_recipients_refused :: "(str \<Rightarrow> str) \<Rightarrow> sender \<Rightarrow> recipient \<Rightarrow> refused_info \<Rightarrow> event list \<times> step" where
  "on_recipients_refused unicode_lower s r info =
     (case refused_code_message info of
        Inl err \<Rightarrow> ([], Raise err)
      | Inr (code, message) \<Rightarrow> rejection_policy unicode_lower s r code message)"

definition on_data_error :: "(str \<Rightarrow> str) \<Rightarrow> sender \<Rightarrow> recipient \<Rightarrow> int option \<Rightarrow> reply \<Rightarrow> event list \<times> step" where
  "on_data_error unicode_lower s r code msg =
     (case decode msg of
        Inl err \<Rightarrow> ([], Raise err)
      | Inr message \<Rightarrow> rejection_policy unicode_lower s r code message)"

text \<open>Lines 339 to 362: the handler of every other exception.\<close>

definition on_exception :: "(str \<Rightarrow> str) \<Rightarrow> sender \<Rightarrow> recipient \<Rightarrow> str \<Rightarrow> event list \<times> step" where
  "on_exception unicode_lower s r error_msg =
     (if str_in (ascii ''policy violation'') (lower unicode_lower error_msg)
      then ([Write_row \<lparr>address = or_empty (email r), status = ''skipped_policy_violation'',
                        detail = error_msg\<rparr>, Sleep 600], Break False True)
      else ([Write_row \<lparr>address = or_empty (email r), status = ''failed'',
                        detail = error_msg\<rparr>],
            if stop_on_error s then Return else Break False False))"

text \<open>
  Lines 250 to 258. An exception raised inside an \<^verbatim>\<open>except\<close> clause is not handled
  by the later clauses of the same \<^verbatim>\<open>try\<close>: the re-raise of the last attempt and a
  failure to reopen the session both leave the recipient loop.
\<close>

definition on_disconnected :: "attempt_env \<Rightarrow> nat \<Rightarrow> str \<Rightarrow> event list \<times> step" where
  "on_disconnected env attempt_no msg =
     (if attempt_no < retries - 1
      then (case reconnect env of
              None \<Rightarrow> ([Sleep 5, Reconnect], Continue)
            | Some err \<Rightarrow> ([Sleep 5, Reconnect], Raise err))
      else ([], Raise msg))"

text \<open>One iteration of the attempt loop, lines 219 to 362.\<close>

definition attempt :: "(str \<Rightarrow> str) \<Rightarrow> config \<Rightarrow> recipient \<Rightarrow> attempt_env \<Rightarrow> nat \<Rightarrow> sender \<Rightarrow> event list \<times> sender \<times> step" where
  "attempt unicode_lower cfg r env attempt_no s =
     (case rate_limit cfg (clock env) s of (waits, s1) \<Rightarrow>
        (case result env of
           Sent \<Rightarrow>
             (waits @ [Send_message (email r),
                       Write_row \<lparr>address = or_empty (email r), status = ''success'', detail = []\<rparr>],
              s1\<lparr>sent_count := sent_count s1 + 1, last_send_time := clock_after env,
                 last_successful_email := email r\<rparr>,
              Break True False)
         | Server_disconnected msg \<Rightarrow>
             (case on_disconnected env attempt_no msg of (evs, st) \<Rightarrow>
                (waits @ Send_message (email r) # evs, s1, st))
         | Recipients_refused info \<Rightarrow>
             (case on_recipients_refused unicode_lower s1 r info of (evs, st) \<Rightarrow>
                (waits @ Send_message (email r) # evs, s1, st))
         | Data_error code message \<Rightarrow>
             (case on_data_error unicode_lower s1 r code message of (evs, st) \<Rightarrow>
                (waits @ Send_message (email r) # evs, s1, st))
         | Other_exception error_msg \<Rightarrow>
             (case on_exception unicode_lower s1 r error_msg of (evs, st) \<Rightarrow>
                (waits @ Send_message (email r) # evs, s1, st))))"

text \<open>The loop \<^verbatim>\<open>for attempt in range(retries)\<close>, over the list of attempt numbers.\<close>

fun attempt_loop :: "(str \<Rightarrow> str) \<Rightarrow> config \<Rightarrow> recipient \<Rightarrow> (nat \<Rightarrow> attempt_env) \<Rightarrow> sender \<Rightarrow> nat list \<Rightarrow> event list \<times> sender \<times> step" where
  "attempt_loop unicode_lower cfg r envs s [] = ([], s, Continue)"
| "attempt_loop unicode_lower cfg r envs s (a # as) =
     (case attempt unicode_lower cfg r (envs a) a s of
        (evs, s1, Continue) \<Rightarrow>
          (case attempt_loop unicode_lower cfg r envs s1 as of (evs2, s2, st) \<Rightarrow> (evs @ evs2, s2, st))
      | (evs, s1, st) \<Rightarrow> (evs, s1, st))"

text \<open>The body of the recipient loop, lines 203 to 370.\<close>

definition process_recipient :: "(str \<Rightarrow> str) \<Rightarrow> config \<Rightarrow> str set \<Rightarrow> recipient \<Rightarrow> (nat \<Rightarrow> attempt_env) \<Rightarrow> sender \<Rightarrow> event list \<times> sender \<times> flow" where
  "process_recipient unicode_lower cfg blacklist_emails r envs s =
     (let recipient_email = strip (or_empty (email r));
          recipient_email_lc = lower unicode_lower recipient_email
      in if recipient_email_lc \<in> blacklist_emails
         then ([Write_row \<lparr>address = recipient_email, status = ''skipped_blacklist'',
                           detail = ascii ''blacklisted''\<rparr>], s, Next)
         else
           (case attempt_loop unicode_lower cfg r envs s [0..<retries] of
              (evs, s1, Continue) \<Rightarrow> (evs, s1, if stop_on_error s1 then Returned else Next)
            | (evs, s1, Break email_sent_successfully non_fatal_skip) \<Rightarrow>
                (evs, s1,
                 if \<not> email_sent_successfully \<and> stop_on_error s1 \<and> \<not> non_fatal_skip
                 then Returned else Next)
            | (evs, s1, Return) \<Rightarrow> (evs, s1, Returned)
            | (evs, s1, Raise err) \<Rightarrow> (evs, s1, Raised err)))"

text \<open>The recipient loop, line 202: each recipient comes with its environment.\<close>

fun recipient_loop :: "(str \<Rightarrow> str) \<Rightarrow> config \<Rightarrow> str set \<Rightarrow> (recipient \<times> (nat \<Rightarrow> attempt_env)) list \<Rightarrow> sender \<Rightarrow> event list \<times> sender \<times> flow" where
  "recipient_loop unicode_lower cfg blacklist_emails [] s = ([], s, Next)"
| "recipient_loop unicode_lower cfg blacklist_emails ((r, envs) # rest) s =
     (case process_recipient unicode_lower cfg blacklist_emails r envs s of
        (evs, s1, Next) \<Rightarrow>
          (case recipient_loop unicode_lower cfg blacklist_emails rest s1 of
             (evs2, s2, fl) \<Rightarrow> (evs @ evs2, s2, fl))
      | (evs, s1, fl) \<Rightarrow> (evs, s1, fl))"

text \<open>The rows of the results file are the rows written, in order.\<close>

fun rows_of :: "event list \<Rightarrow> outcome_record list" where
  "rows_of [] = []"
| "rows_of (Write_row row # evs) = row # rows_of evs"
| "rows_of (_ # evs) = rows_of evs"

section \<open>The suppression list\<close>

text \<open>
  The suppression file is given by its first line (\<^verbatim>\<open>f.readline()\<close>) and by the rows
  that \<^verbatim>\<open>csv.reader\<close> yields for it; the tokenizer of the \<^verbatim>\<open>csv\<close> module is not
  modelled.
\<close>

definition has_header :: "(str \<Rightarrow> str) \<Rightarrow> str \<Rightarrow> bool" where
  "has_header unicode_lower peek = str_in (ascii ''email'') (lower unicode_lower peek)"

text \<open>
  One row of \<^verbatim>\<open>csv.DictReader\<close>: \<^verbatim>\<open>dict(zip(fieldnames, row))\<close>, where a later
  column of the same name wins, then \<^verbatim>\<open>None\<close> for the fields a short row does not
  reach. The surplus cells of a long row go under the key \<^verbatim>\<open>None\<close>, which no
  lookup by name sees.
\<close>

definition dict_row :: "str list \<Rightarrow> str list \<Rightarrow> (str \<rightharpoonup> str option)" where
  "dict_row fieldnames row =
     (let d = Map.empty(fieldnames [\<mapsto>] map Some row)
      in d(drop (length row) fieldnames [\<mapsto>] replicate (length fieldnames - length row) None))"

text \<open>\<^verbatim>\<open>csv.DictReader\<close>: the first row names the fields, empty rows are passed over.\<close>

fun dict_reader :: "str list list \<Rightarrow> (str \<rightharpoonup> str option) list" where
  "dict_reader [] = []"
| "dict_reader (fieldnames # rows) = map (dict_row fieldnames) (filter (\<lambda>row. row \<noteq> []) rows)"

text \<open>\<^verbatim>\<open>row.get('email')\<close>: \<^verbatim>\<open>None\<close> for a missing key as for a missing cell.\<close>

definition get_email :: "(str \<rightharpoonup> str option) \<Rightarrow> str option" where
  "get_email d = (case d (ascii ''email'') of None \<Rightarrow> None | Some v \<Rightarrow> v)"

text \<open>The body of the loop of lines 120 to 123.\<close>

definition add_headered :: "(str \<Rightarrow> str) \<Rightarrow> (str \<rightharpoonup> str option) \<Rightarrow> str set \<Rightarrow> str set" where
  "add_headered unicode_lower row blacklisted =
     (let email = lower unicode_lower (strip (or_empty (get_email row)))
      in if email \<noteq> [] then insert email blacklisted else blacklisted)"

text \<open>The body of the loop of lines 126 to 134.\<close>

definition add_headerless :: "(str \<Rightarrow> str) \<Rightarrow> str list \<Rightarrow> str set \<Rightarrow> str set" where
  "add_headerless unicode_lower row blacklisted =
     (case row of
        [] \<Rightarrow> blacklisted
      | cell # _ \<Rightarrow>
          (let email = lower unicode_lower (strip cell)
           in if email = ascii ''email'' then blacklisted
              else if email \<noteq> [] then insert email blacklisted
              else blacklisted))"

text \<open>Lines 114 to 134: the parsing of a file that could be opened.\<close>

definition parse_blacklist :: "(str \<Rightarrow> str) \<Rightarrow> str \<Rightarrow> str list list \<Rightarrow> str set" where
  "parse_blacklist unicode_lower peek rows =
     (if has_header unicode_lower peek
      then fold (add_headered unicode_lower) (dict_reader rows) {}
      else fold (add_headerless unicode_lower) rows {})"

text \<open>
  \<^verbatim>\<open>_read_blacklist\<close>: a file that is missing or cannot be read raises (\<open>Inl\<close>, with
  the message); the handlers of lines 144 to 149 log and raise again.
\<close>

definition read_blacklist :: "(str \<Rightarrow> str) \<Rightarrow> str + str \<times> str list list \<Rightarrow> str + str set" where
  "read_blacklist unicode_lower content =
     (case content of
        Inl err \<Rightarrow> Inl err
      | Inr (peek, rows) \<Rightarrow> Inr (parse_blacklist unicode_lower peek rows))"

section \<open>The run\<close>

text \<open>
  What a run meets outside the recipient loop: the suppression file, the exception of
  \<^verbatim>\<open>_test_smtp_connection\<close> if it raises, the template and the recipient file (\<open>Inl\<close>
  when reading either raises; each recipient comes with the environment of its attempts),
  and the exception of opening the session of lines 198 and 199, if it raises. Creating
  the results directory and file is taken to succeed.
\<close>

record run_env =
  blacklist_file :: "str + str \<times> str list list"
  connection_test :: "str option"
  recipients_read :: "str + (recipient \<times> (nat \<Rightarrow> attempt_env)) list"
  session_open :: "str option"

text \<open>
  What a run leaves: the events of the recipient loop, the sender, how
  \<^verbatim>\<open>send_newsletters\<close> ended (\<open>Next\<close>: it ran to its last line), and the data rows of
  the results file below its header row, \<open>None\<close> when no results file was created.
\<close>

record run_result =
  trace :: "event list"
  sender_after :: sender
  ending :: flow
  results_file :: "outcome_record list option"

definition send_newsletters :: "(str \<Rightarrow> str) \<Rightarrow> config \<Rightarrow> bool \<Rightarrow> run_env \<Rightarrow> sender \<Rightarrow> run_result" where
  "send_newsletters unicode_lower cfg stop env s =
     (let s0 = s\<lparr>stop_on_error := stop\<rparr> in
      case read_blacklist unicode_lower (blacklist_file env) of
        Inl err \<Rightarrow> \<lparr>trace = [], sender_after = s0, ending = Returned, results_file = None\<rparr>
      | Inr blacklist_emails \<Rightarrow>
          (case connection_test env of
             Some err \<Rightarrow> \<lparr>trace = [], sender_after = s0, ending = Raised err, results_file = None\<rparr>
           | None \<Rightarrow>
               (case recipients_read env of
                  Inl err \<Rightarrow>
                    \<lparr>trace = [], sender_after = s0, ending = Raised err, results_file = None\<rparr>
                | Inr recipients \<Rightarrow>
                    (case session_open env of
                       Some err \<Rightarrow>
                         \<lparr>trace = [], sender_after = s0, ending = Raised err,
                          results_file = Some []\<rparr>
                     | None \<Rightarrow>
                         (case recipient_loop unicode_lower cfg blacklist_emails recipients s0 of
                            (evs, s1, fl) \<Rightarrow>
                              \<lparr>trace = evs, sender_after = s1, ending = fl,
                               results_file = Some (rows_of evs)\<rparr>)))))"

text \<open>
  \<^verbatim>\<open>main\<close>: an exception of \<^verbatim>\<open>send_newsletters\<close> is printed and raised again, which
  ends the process with an error; otherwise the script reports success.
\<close>

datatype exit = Exit_ok | Exit_error str

definition main :: "(str \<Rightarrow> str) \<Rightarrow> config \<Rightarrow> run_env \<Rightarrow> exit" where
  "main unicode_lower cfg env =
     (case ending (send_newsletters unicode_lower cfg True env init_sender) of
        Raised err \<Rightarrow> Exit_error err
      | _ \<Rightarrow> Exit_ok)"

text \<open>The seconds slept in a list of events.\<close>

fun slept :: "event list \<Rightarrow> real" where
  "slept [] = 0"
| "slept (Sleep d # evs) = d + slept evs"
| "slept (_ # evs) = slept evs"

section \<open>Concrete inputs\<close>

text \<open>
  A configuration, a recipient, and environments given by the results of the successive
  attempts (every attempt after the listed ones is a successful send), on which the
  theorems below are evaluated. All text of these inputs is ASCII, so that no result
  depends on the case tables; where a closed statement needs them, they are taken as
  \<open>no_mapping\<close>, which changes nothing.
\<close>

definition no_mapping :: "str \<Rightarrow> str" where
  "no_mapping s = s"

definition example_config :: config where
  "example_config = \<lparr>emails_per_batch = 2, batch_delay = 3, delay_between_emails = 1\<rparr>"

definition ann :: recipient where
  "ann = \<lparr>email = Some (ascii ''ann@example.org'')\<rparr>"

definition env_with :: "send_result \<Rightarrow> attempt_env" where
  "env_with res = \<lparr>clock = 10, result = res, clock_after = 11, reconnect = None\<rparr>"

fun script :: "send_result list \<Rightarrow> nat \<Rightarrow> attempt_env" where
  "script [] a = env_with Sent"
| "script (res # rest) 0 = env_with res"
| "script (res # rest) (Suc a) = script rest a"

text \<open>A run whose recipient file can be read and whose session opens.\<close>

definition run_with :: "(str + str \<times> str list list) \<Rightarrow> str option \<Rightarrow> (recipient \<times> (nat \<Rightarrow> attempt_env)) list \<Rightarrow> run_env" where
  "run_with content test recipients =
     \<lparr>blacklist_file = content, connection_test = test, recipients_read = Inr recipients,
      session_open = None\<rparr>"

section \<open>Evaluation and basic facts\<close>

lemmas text_eval = ascii_def lower_def lower_ascii_def strip_def is_space_def
  or_empty_def code_detail_def str_code_def str_int_def digits.simps

lemma upt_three: "[0..<3] = [0, 1, 2]"
  by (simp add: upt_rec)

lemma upt_retries: "[0..<retries] = [0, 1, 2]"
  by (simp add: retries_def upt_three)

lemma rate_limit_stop [simp]: "stop_on_error (snd (rate_limit cfg t s)) = stop_on_error s"
  by (simp add: rate_limit_def Let_def)

lemma rows_of_append [simp]: "rows_of (xs @ ys) = rows_of xs @ rows_of ys"
  by (induction xs rule: rows_of.induct) simp_all

lemma rows_of_replicate_Sleep [simp]: "rows_of (replicate n (Sleep d)) = []"
  by (induction n) simp_all

lemma rows_of_rate_limit [simp]: "rows_of (fst (rate_limit cfg t s)) = []"
  by (simp add: rate_limit_def Let_def)

lemma attempt_retry:
  assumes "result env = Server_disconnected m" "a < 2" "reconnect env = None"
  shows "attempt ul cfg r env a s =
    (fst (rate_limit cfg (clock env) s) @ [Send_message (email r), Sleep 5, Reconnect],
     snd (rate_limit cfg (clock env) s), Continue)"
  using assms by (simp add: attempt_def on_disconnected_def retries_def split: prod.splits)

lemma attempt_rejection:
  assumes "result env = Recipients_refused info \<and> refused_code_message info = Inr (code, message)
           \<or> result env = Data_error code (Reply message)"
  shows "attempt ul cfg r env a s =
    (fst (rate_limit cfg (clock env) s) @
       Send_message (email r) # fst (rejection_policy ul (snd (rate_limit cfg (clock env) s)) r code message),
     snd (rate_limit cfg (clock env) s),
     snd (rejection_policy ul (snd (rate_limit cfg (clock env) s)) r code message))"
  using assms
  by (auto simp add: attempt_def on_recipients_refused_def on_data_error_def decode_def
      split: prod.splits)

text \<open>A reply that cannot be decoded leaves the attempt as an exception, after the send.\<close>

lemma attempt_undecodable:
  assumes "result env = Recipients_refused (Info_tuple n (Undecodable err))
           \<or> result env = Data_error code (Undecodable err)"
  shows "attempt ul cfg r env a s =
    (fst (rate_limit cfg (clock env) s) @ [Send_message (email r)],
     snd (rate_limit cfg (clock env) s), Raise err)"
  using assms
  by (auto simp add: attempt_def on_recipients_refused_def on_data_error_def decode_def
      refused_code_message_def split: prod.splits)

lemma attempt_exception:
  assumes "result env = Other_exception msg"
  shows "attempt ul cfg r env a s =
    (fst (rate_limit cfg (clock env) s) @
       Send_message (email r) # fst (on_exception ul (snd (rate_limit cfg (clock env) s)) r msg),
     snd (rate_limit cfg (clock env) s),
     snd (on_exception ul (snd (rate_limit cfg (clock env) s)) r msg))"
  using assms
  by (auto simp add: attempt_def split: prod.splits)

lemma attempt_last_disconnect:
  assumes "result env = Server_disconnected m"
  shows "attempt ul cfg r env 2 s =
    (fst (rate_limit cfg (clock env) s) @ [Send_message (email r)],
     snd (rate_limit cfg (clock env) s), Raise m)"
  using assms by (simp add: attempt_def on_disconnected_def retries_def split: prod.splits)

lemma attempt_loop_retry:
  assumes "attempt ul cfg r (envs a) a s = (evs, s1, Continue)"
  shows "attempt_loop ul cfg r envs s (a # as) =
           (case attempt_loop ul cfg r envs s1 as of (evs2, s2, st) \<Rightarrow> (evs @ evs2, s2, st))"
  using assms by simp

lemma attempt_loop_stop:
  assumes "attempt ul cfg r (envs a) a s = (evs, s1, st)" "st \<noteq> Continue"
  shows "attempt_loop ul cfg r envs s (a # as) = (evs, s1, st)"
  using assms by (cases st) simp_all

text \<open>The loop reaches attempt a when all earlier attempts were disconnects with a reopened session.\<close>

lemma loop_reaches_attempt:
  assumes a: "a < retries"
    and pre: "\<forall>i<a. \<exists>m. result (envs i) = Server_disconnected m \<and> reconnect (envs i) = None"
  shows "\<exists>pre s1. rows_of pre = [] \<and> stop_on_error s1 = stop_on_error s \<and>
           (\<forall>evs s2 st. attempt ul cfg r (envs a) a s1 = (evs, s2, st) \<longrightarrow> st \<noteq> Continue \<longrightarrow>
              attempt_loop ul cfg r envs s [0..<retries] = (pre @ evs, s2, st))"
proof -
  let ?s1 = "snd (rate_limit cfg (clock (envs 0)) s)"
  let ?p1 = "fst (rate_limit cfg (clock (envs 0)) s) @ [Send_message (email r), Sleep 5, Reconnect]"
  let ?s2 = "snd (rate_limit cfg (clock (envs 1)) ?s1)"
  let ?p2 = "fst (rate_limit cfg (clock (envs 1)) ?s1) @ [Send_message (email r), Sleep 5, Reconnect]"
  from a have "a = 0 \<or> a = 1 \<or> a = 2" by (auto simp: retries_def)
  then show ?thesis
  proof (elim disjE)
    assume a0: "a = 0"
    have "\<forall>evs s2 st. attempt ul cfg r (envs a) a s = (evs, s2, st) \<longrightarrow> st \<noteq> Continue \<longrightarrow>
              attempt_loop ul cfg r envs s [0..<retries] = ([] @ evs, s2, st)"
      unfolding upt_retries a0 by (auto intro: attempt_loop_stop[where envs=envs and a=0] simp del: attempt_loop.simps)
    then show ?thesis by (metis rows_of.simps(1))
  next
    assume a1: "a = 1"
    with pre[rule_format, of 0] obtain m0
      where d0: "result (envs 0) = Server_disconnected m0" "reconnect (envs 0) = None"
      by auto
    have r0: "attempt ul cfg r (envs 0) 0 s = (?p1, ?s1, Continue)"
      by (rule attempt_retry[OF d0(1) _ d0(2)]) simp
    have "attempt_loop ul cfg r envs s [0..<retries] = (?p1 @ evs, s2, st)"
      if h: "attempt ul cfg r (envs a) a ?s1 = (evs, s2, st)" "st \<noteq> Continue" for evs s2 st
    proof -
      have "attempt_loop ul cfg r envs ?s1 [1, 2] = (evs, s2, st)"
        using h unfolding a1 by (rule attempt_loop_stop[where envs=envs and a=1])
      then show ?thesis
        unfolding upt_retries by (simp only: attempt_loop_retry[where envs=envs and a=0, OF r0] prod.case)
    qed
    then have "\<forall>evs s2 st. attempt ul cfg r (envs a) a ?s1 = (evs, s2, st) \<longrightarrow> st \<noteq> Continue \<longrightarrow>
              attempt_loop ul cfg r envs s [0..<retries] = (?p1 @ evs, s2, st)"
      by blast
    moreover have "rows_of ?p1 = []" by simp
    moreover have "stop_on_error ?s1 = stop_on_error s" by simp
    ultimately show ?thesis by blast
  next
    assume a2: "a = 2"
    with pre[rule_format, of 0] obtain m0
      where d0: "result (envs 0) = Server_disconnected m0" "reconnect (envs 0) = None"
      by auto
    from a2 pre[rule_format, of 1] obtain m1
      where d1: "result (envs 1) = Server_disconnected m1" "reconnect (envs 1) = None"
      by auto
    have r0: "attempt ul cfg r (envs 0) 0 s = (?p1, ?s1, Continue)"
      by (rule attempt_retry[OF d0(1) _ d0(2)]) simp
    have r1: "attempt ul cfg r (envs 1) 1 ?s1 = (?p2, ?s2, Continue)"
      by (rule attempt_retry[OF d1(1) _ d1(2)]) simp
    have "attempt_loop ul cfg r envs s [0..<retries] = ((?p1 @ ?p2) @ evs, s2, st)"
      if h: "attempt ul cfg r (envs a) a ?s2 = (evs, s2, st)" "st \<noteq> Continue" for evs s2 st
    proof -
      have "attempt_loop ul cfg r envs ?s2 [2] = (evs, s2, st)"
        using h unfolding a2 by (rule attempt_loop_stop[where envs=envs and a=2])
      then show ?thesis
        unfolding upt_retries
        by (simp only: attempt_loop_retry[where envs=envs and a=0, OF r0] attempt_loop_retry[where envs=envs and a=1, OF r1] prod.case append_assoc)
    qed
    then have "\<forall>evs s2 st. attempt ul cfg r (envs a) a ?s2 = (evs, s2, st) \<longrightarrow> st \<noteq> Continue \<longrightarrow>
              attempt_loop ul cfg r envs s [0..<retries] = ((?p1 @ ?p2) @ evs, s2, st)"
      by blast
    moreover have "rows_of (?p1 @ ?p2) = []" by simp
    moreover have "stop_on_error ?s2 = stop_on_error s" by simp
    ultimately show ?thesis by blast
  qed
qed

text \<open>
  Claim C5. A recipient whose address, trimmed with \<^verbatim>\<open>str.strip\<close> and lowercased
  with \<^verbatim>\<open>str.lower\<close> as in lines 204 and 205, is in the suppression set gets exactly
  one row, with status \<^verbatim>\<open>skipped_blacklist\<close>: there is no send attempt and no wait,
  the sender (sent count, time of the last send, last successful address) is unchanged,
  and the loop goes on with the next recipient. This holds whatever the case tables of the
  interpreter are.
\<close>

theorem blacklisted_recipient_skipped:
  assumes "lower ul (strip (or_empty (email r))) \<in> blacklist_emails"
  shows "process_recipient ul cfg blacklist_emails r envs s =
           ([Write_row \<lparr>address = strip (or_empty (email r)), status = ''skipped_blacklist'',
                         detail = ascii ''blacklisted''\<rparr>], s, Next)
       \<and> recipient_loop ul cfg blacklist_emails ((r, envs) # rest) s =
           (case recipient_loop ul cfg blacklist_emails rest s of
              (evs, s1, fl) \<Rightarrow>
                (Write_row \<lparr>address = strip (or_empty (email r)), status = ''skipped_blacklist'',
                            detail = ascii ''blacklisted''\<rparr> # evs, s1, fl))"
  using assms by (simp add: process_recipient_def)


lemma process_not_blacklisted:
  assumes "lower ul (strip (or_empty (email r))) \<notin> bl"
    and "attempt_loop ul cfg r envs s [0..<retries] = (evs, s1, st)"
  shows "process_recipient ul cfg bl r envs s =
           (evs, s1,
            case st of
              Continue \<Rightarrow> if stop_on_error s1 then Returned else Next
            | Break sent skip \<Rightarrow> if \<not> sent \<and> stop_on_error s1 \<and> \<not> skip then Returned else Next
            | Return \<Rightarrow> Returned
            | Raise err \<Rightarrow> Raised err)"
  using assms by (simp add: process_recipient_def split: step.splits)

lemma recipient_loop_next:
  assumes "process_recipient ul cfg bl r envs s = (evs, s1, Next)"
  shows "recipient_loop ul cfg bl ((r, envs) # rest) s =
           (case recipient_loop ul cfg bl rest s1 of (evs2, s2, fl) \<Rightarrow> (evs @ evs2, s2, fl))"
  using assms by simp

lemma recipient_loop_end:
  assumes "process_recipient ul cfg bl r envs s = (evs, s1, fl)" "fl \<noteq> Next"
  shows "recipient_loop ul cfg bl ((r, envs) # rest) s = (evs, s1, fl)"
  using assms by (cases fl) simp_all

lemma recipient_loop_append:
  "recipient_loop ul cfg bl (xs @ ys) s =
     (case recipient_loop ul cfg bl xs s of
        (evs, s1, Next) \<Rightarrow>
          (case recipient_loop ul cfg bl ys s1 of (evs2, s2, fl) \<Rightarrow> (evs @ evs2, s2, fl))
      | (evs, s1, fl) \<Rightarrow> (evs, s1, fl))"
proof (induction xs arbitrary: s)
  case Nil
  then show ?case by (simp split: prod.splits)
next
  case (Cons x xs)
  obtain r envs where x: "x = (r, envs)" by (cases x)
  obtain evs s1 fl where p: "process_recipient ul cfg bl r envs s = (evs, s1, fl)"
    by (metis prod_cases3)
  show ?case
  proof (cases fl)
    case Next
    with p x Cons.IH[of s1] show ?thesis
      by (simp split: prod.splits flow.splits)
  qed (use p x in simp_all)
qed


lemmas run_eval = process_recipient_def attempt_def rate_limit_def on_disconnected_def
  on_recipients_refused_def on_data_error_def on_exception_def rejection_policy_def
  refused_code_message_def decode_def retries_def example_config_def ann_def env_with_def
  init_sender_def

theorem blacklisted_recipient_skipped_witness:
  "process_recipient no_mapping example_config {ascii ''ann@example.org''}
     \<lparr>email = Some (ascii '' Ann@Example.org '')\<rparr> (script []) init_sender =
     ([Write_row \<lparr>address = ascii ''Ann@Example.org'', status = ''skipped_blacklist'',
                   detail = ascii ''blacklisted''\<rparr>], init_sender, Next)"
  using blacklisted_recipient_skipped[of no_mapping
      "\<lparr>email = Some (ascii '' Ann@Example.org '')\<rparr>"
      "{ascii ''ann@example.org''}" example_config "script []" init_sender "[]"]
  by (simp add: text_eval)

section \<open>Rejections with code 556\<close>

text \<open>
  When the reply of the server can be decoded, a rejection with code 556, in either typed
  handler and on any attempt that the loop reaches, writes one row with status
  \<^verbatim>\<open>skipped\<close> right after the send, ends the attempt loop, and the engine goes on with
  the next recipient whatever the value of \<^verbatim>\<open>stop_on_error\<close>.
\<close>

lemma invalid_domain_skipped:
  assumes nb: "lower ul (strip (or_empty (email r))) \<notin> blacklist_emails"
    and a: "a < retries"
    and pre: "\<forall>i<a. \<exists>m. result (envs i) = Server_disconnected m \<and> reconnect (envs i) = None"
    and rej: "result (envs a) = Recipients_refused (Info_tuple 556 (Reply message))
              \<or> result (envs a) = Data_error (Some 556) (Reply message)"
  shows "\<exists>before s1.
           rows_of before = []
         \<and> process_recipient ul cfg blacklist_emails r envs s =
             (before @ [Send_message (email r),
                        Write_row \<lparr>address = or_empty (email r), status = ''skipped'',
                                   detail = code_detail (Some 556) message\<rparr>], s1, Next)
         \<and> recipient_loop ul cfg blacklist_emails ((r, envs) # rest) s =
             (case recipient_loop ul cfg blacklist_emails rest s1 of
                (evs2, s2, fl) \<Rightarrow>
                  ((before @ [Send_message (email r),
                        Write_row \<lparr>address = or_empty (email r), status = ''skipped'',
                                   detail = code_detail (Some 556) message\<rparr>]) @ evs2, s2, fl))"
proof -
  let ?row = "Write_row \<lparr>address = or_empty (email r), status = ''skipped'',
                          detail = code_detail (Some 556) message\<rparr>"
  from loop_reaches_attempt[OF a pre, of s ul cfg r] obtain p s0 where
    p: "rows_of p = []" and
    reach: "\<And>evs s2 st. attempt ul cfg r (envs a) a s0 = (evs, s2, st) \<Longrightarrow> st \<noteq> Continue \<Longrightarrow>
              attempt_loop ul cfg r envs s [0..<retries] = (p @ evs, s2, st)"
    by blast
  let ?rl = "rate_limit cfg (clock (envs a)) s0"
  have "result (envs a) = Recipients_refused (Info_tuple 556 (Reply message))
          \<and> refused_code_message (Info_tuple 556 (Reply message)) = Inr (Some 556, message)
        \<or> result (envs a) = Data_error (Some 556) (Reply message)"
    using rej by (simp add: refused_code_message_def decode_def)
  from attempt_rejection[OF this]
  have "attempt ul cfg r (envs a) a s0 =
          (fst ?rl @ [Send_message (email r), ?row], snd ?rl, Break False True)"
    by (simp add: rejection_policy_def)
  from reach[OF this]
  have "attempt_loop ul cfg r envs s [0..<retries] =
          ((p @ fst ?rl) @ [Send_message (email r), ?row], snd ?rl, Break False True)"
    by simp
  from process_not_blacklisted[OF nb this]
  have pr: "process_recipient ul cfg blacklist_emails r envs s =
          ((p @ fst ?rl) @ [Send_message (email r), ?row], snd ?rl, Next)"
    by simp
  moreover note recipient_loop_next[OF pr, of rest]
  moreover have "rows_of (p @ fst ?rl) = []" using p by simp
  ultimately show ?thesis by blast
qed

lemma invalid_domain_skipped_example:
  "rows_of (fst (process_recipient no_mapping example_config {} ann
              (script [Server_disconnected (ascii ''closed''),
                       Data_error (Some 556) (Reply (ascii ''no such domain''))])
              init_sender)) =
     [\<lparr>address = ascii ''ann@example.org'', status = ''skipped'',
       detail = ascii ''556 no such domain''\<rparr>]
   \<and> snd (snd (process_recipient no_mapping example_config {} ann
              (script [Server_disconnected (ascii ''closed''),
                       Data_error (Some 556) (Reply (ascii ''no such domain''))])
              init_sender)) = Next"
proof -
  let ?envs = "script [Server_disconnected (ascii ''closed''),
                       Data_error (Some 556) (Reply (ascii ''no such domain''))]"
  have nb: "lower no_mapping (strip (or_empty (email ann))) \<notin> {}"
    by simp
  have a: "1 < retries"
    by (simp add: retries_def)
  have pre: "\<forall>i<1. \<exists>m. result (?envs i) = Server_disconnected m \<and> reconnect (?envs i) = None"
    by (simp add: env_with_def)
  have rej: "result (?envs 1) = Recipients_refused (Info_tuple 556 (Reply (ascii ''no such domain'')))
             \<or> result (?envs 1) = Data_error (Some 556) (Reply (ascii ''no such domain''))"
    by (simp add: env_with_def)
  from invalid_domain_skipped[OF nb a pre rej, of example_config init_sender "[]"]
  obtain before s1 where "rows_of before = []"
    and "process_recipient no_mapping example_config {} ann ?envs init_sender =
           (before @ [Send_message (email ann),
                      Write_row \<lparr>address = or_empty (email ann), status = ''skipped'',
                                 detail = code_detail (Some 556) (ascii ''no such domain'')\<rparr>],
            s1, Next)"
    by blast
  then show ?thesis
    by (simp add: text_eval ann_def)
qed

text \<open>
  Claim C4 does not hold of the code. The typed handlers decode the reply of the server
  (lines 269 and 308) before they test the code: when a rejection with code 556 carries a
  reply that is not UTF-8, decoding raises inside the \<^verbatim>\<open>except\<close> clause, no row is
  written for the recipient, and the exception, whatever its message \<open>err\<close>, ends the
  run, here with \<^verbatim>\<open>stop_on_error\<close> not set and a recipient still to come.
\<close>

theorem invalid_domain_undecodable_reply:
  "recipient_loop ul example_config {}
     [(ann, script [Data_error (Some 556) (Undecodable err)]), (ann, script [])]
     (init_sender\<lparr>stop_on_error := False\<rparr>) =
   ([Send_message (Some (ascii ''ann@example.org''))],
    init_sender\<lparr>stop_on_error := False\<rparr>,
    Raised err)"
  by (simp add: text_eval run_eval upt_three)

section \<open>Precedence of code 556 over the policy-violation text\<close>

text \<open>
  Claim C10. When a rejection has code 556 and its message contains the policy-violation
  text, both typed handlers take the branch of code 556: the row has status
  \<^verbatim>\<open>skipped\<close>, it is the only event of the handler and the last one of the attempt,
  so nothing is slept.
\<close>

theorem code_556_precedes_policy_violation:
  assumes "str_in (ascii ''policy violation'') (lower ul message)"
  shows "on_recipients_refused ul s r (Info_tuple 556 (Reply message)) =
           ([Write_row \<lparr>address = or_empty (email r), status = ''skipped'',
                         detail = code_detail (Some 556) message\<rparr>], Break False True)
       \<and> on_data_error ul s r (Some 556) (Reply message) =
           ([Write_row \<lparr>address = or_empty (email r), status = ''skipped'',
                         detail = code_detail (Some 556) message\<rparr>], Break False True)
       \<and> slept (fst (on_recipients_refused ul s r (Info_tuple 556 (Reply message)))) = 0
       \<and> slept (fst (on_data_error ul s r (Some 556) (Reply message))) = 0
       \<and> (result env = Recipients_refused (Info_tuple 556 (Reply message))
            \<or> result env = Data_error (Some 556) (Reply message) \<longrightarrow>
          attempt ul cfg r env a s =
            (fst (rate_limit cfg (clock env) s) @
               [Send_message (email r),
                Write_row \<lparr>address = or_empty (email r), status = ''skipped'',
                           detail = code_detail (Some 556) message\<rparr>],
             snd (rate_limit cfg (clock env) s), Break False True))"
  by (auto simp add: on_recipients_refused_def on_data_error_def refused_code_message_def
      decode_def rejection_policy_def attempt_def split: prod.splits)

theorem code_556_precedes_policy_violation_witness:
  "str_in (ascii ''policy violation'') (lower no_mapping (ascii ''Rejected: Policy Violation''))
   \<and> on_recipients_refused no_mapping init_sender ann (Info_tuple 556 (Reply (ascii ''Rejected: Policy Violation''))) =
       ([Write_row \<lparr>address = ascii ''ann@example.org'', status = ''skipped'',
                     detail = ascii ''556 Rejected: Policy Violation''\<rparr>], Break False True)
   \<and> attempt no_mapping example_config ann (env_with (Data_error (Some 556) (Reply (ascii ''Rejected: Policy Violation'')))) 0
        init_sender =
       ([Send_message (Some (ascii ''ann@example.org'')),
         Write_row \<lparr>address = ascii ''ann@example.org'', status = ''skipped'',
                     detail = ascii ''556 Rejected: Policy Violation''\<rparr>], init_sender, Break False True)"
proof -
  have pv: "str_in (ascii ''policy violation'') (lower no_mapping (ascii ''Rejected: Policy Violation''))"
    by (simp add: text_eval)
  from code_556_precedes_policy_violation[OF pv, of init_sender ann
      "env_with (Data_error (Some 556) (Reply (ascii ''Rejected: Policy Violation'')))" example_config 0]
  have "on_recipients_refused no_mapping init_sender ann (Info_tuple 556 (Reply (ascii ''Rejected: Policy Violation''))) =
       ([Write_row \<lparr>address = ascii ''ann@example.org'', status = ''skipped'',
                     detail = ascii ''556 Rejected: Policy Violation''\<rparr>], Break False True)"
    and "attempt no_mapping example_config ann (env_with (Data_error (Some 556) (Reply (ascii ''Rejected: Policy Violation'')))) 0
        init_sender =
       ([Send_message (Some (ascii ''ann@example.org'')),
         Write_row \<lparr>address = ascii ''ann@example.org'', status = ''skipped'',
                     detail = ascii ''556 Rejected: Policy Violation''\<rparr>], init_sender, Break False True)"
    by (simp_all add: text_eval ann_def env_with_def rate_limit_def example_config_def init_sender_def)
  with pv show ?thesis by blast
qed

section \<open>Properties of the rate limiter\<close>

lemma slept_replicate: "slept (replicate n (Sleep d)) = real n * d"
  by (induction n) (simp_all add: algebra_simps)

text \<open>
  Claim C6. A call of the rate limiter with the sent count at or above the batch size
  sleeps one second \<^verbatim>\<open>batch_delay\<close> times and then sets the sent count to 0, without
  looking at the spacing; any other call leaves the sender as it is and sleeps the
  remaining difference when less than \<^verbatim>\<open>delay_between_emails\<close> has elapsed since the
  last send, and does nothing otherwise. One attempt therefore leaves the sent count
  unchanged or one higher below the batch size, and at 0 or 1 after a batch pause.
\<close>

theorem rate_limit_policy:
  "(emails_per_batch cfg \<le> sent_count s \<longrightarrow>
      rate_limit cfg t s = (replicate (nat (batch_delay cfg)) (Sleep 1), s\<lparr>sent_count := 0\<rparr>)
    \<and> (0 \<le> batch_delay cfg \<longrightarrow> slept (fst (rate_limit cfg t s)) = of_int (batch_delay cfg)))
 \<and> (sent_count s < emails_per_batch cfg \<and> t - last_send_time s < delay_between_emails cfg \<longrightarrow>
      rate_limit cfg t s = ([Sleep (delay_between_emails cfg - (t - last_send_time s))], s))
 \<and> (sent_count s < emails_per_batch cfg \<and> \<not> t - last_send_time s < delay_between_emails cfg \<longrightarrow>
      rate_limit cfg t s = ([], s))
 \<and> (sent_count s < emails_per_batch cfg \<longrightarrow>
      sent_count (fst (snd (attempt ul cfg r env a s))) \<in> {sent_count s, sent_count s + 1})
 \<and> (emails_per_batch cfg \<le> sent_count s \<longrightarrow>
      sent_count (fst (snd (attempt ul cfg r env a s))) \<in> {0, 1}
      \<and> take (nat (batch_delay cfg)) (fst (attempt ul cfg r env a s)) =
          replicate (nat (batch_delay cfg)) (Sleep 1))"
proof -
  have "slept (fst (rate_limit cfg t s)) = of_int (batch_delay cfg)"
    if "emails_per_batch cfg \<le> sent_count s" "0 \<le> batch_delay cfg"
    using that by (simp add: rate_limit_def slept_replicate)
  moreover have "sent_count (fst (snd (attempt ul cfg r env a s))) \<in> {sent_count s, sent_count s + 1}"
    if "sent_count s < emails_per_batch cfg"
    using that by (cases "result env")
      (simp_all add: attempt_def rate_limit_def Let_def split: prod.splits)
  moreover have "sent_count (fst (snd (attempt ul cfg r env a s))) \<in> {0, 1}"
    if "emails_per_batch cfg \<le> sent_count s"
    using that by (cases "result env")
      (simp_all add: attempt_def rate_limit_def Let_def split: prod.splits)
  moreover have "take (nat (batch_delay cfg)) (fst (attempt ul cfg r env a s)) =
          replicate (nat (batch_delay cfg)) (Sleep 1)"
    if "emails_per_batch cfg \<le> sent_count s"
    using that by (cases "result env")
      (simp_all add: attempt_def rate_limit_def Let_def split: prod.splits)
  ultimately show ?thesis
    by (simp add: rate_limit_def Let_def)
qed

theorem rate_limit_policy_witness:
  "rate_limit example_config 20 (init_sender\<lparr>sent_count := 2, last_send_time := 19.5\<rparr>) =
     ([Sleep 1, Sleep 1, Sleep 1], init_sender\<lparr>sent_count := 0, last_send_time := 19.5\<rparr>)
   \<and> slept (fst (rate_limit example_config 20 (init_sender\<lparr>sent_count := 2, last_send_time := 19.5\<rparr>))) = 3
   \<and> sent_count (fst (snd (attempt no_mapping example_config ann (env_with Sent) 0
        (init_sender\<lparr>sent_count := 2, last_send_time := 19.5\<rparr>)))) \<in> {0, 1}
   \<and> rate_limit example_config 20 (init_sender\<lparr>sent_count := 1, last_send_time := 19.5\<rparr>) =
     ([Sleep 0.5], init_sender\<lparr>sent_count := 1, last_send_time := 19.5\<rparr>)
   \<and> sent_count (fst (snd (attempt no_mapping example_config ann (env_with Sent) 0
        (init_sender\<lparr>sent_count := 1, last_send_time := 19.5\<rparr>)))) \<in> {1, 2}
   \<and> rate_limit example_config 20 (init_sender\<lparr>sent_count := 1, last_send_time := 19\<rparr>) =
     ([], init_sender\<lparr>sent_count := 1, last_send_time := 19\<rparr>)"
  using rate_limit_policy[where cfg = example_config and t = 20 and ul = no_mapping and r = ann
      and env = "env_with Sent" and a = 0
      and s = "init_sender\<lparr>sent_count := 2, last_send_time := 19.5\<rparr>"]
    rate_limit_policy[where cfg = example_config and t = 20 and ul = no_mapping and r = ann
      and env = "env_with Sent" and a = 0
      and s = "init_sender\<lparr>sent_count := 1, last_send_time := 19.5\<rparr>"]
    rate_limit_policy[where cfg = example_config and t = 20 and ul = no_mapping and r = ann
      and env = "env_with Sent" and a = 0
      and s = "init_sender\<lparr>sent_count := 1, last_send_time := 19\<rparr>"]
  by (simp add: example_config_def init_sender_def numeral_3_eq_3)

section \<open>Failures that no handler classifies\<close>

text \<open>
  When the reply of the server can be decoded, a failure that is neither a disconnect nor
  a rejection with code 556 and whose message does not contain the policy-violation text,
  on any attempt that the loop reaches, writes a row with status \<^verbatim>\<open>failed\<close> for the
  recipient. With \<^verbatim>\<open>stop_on_error\<close> set the run returns there: the events of the run
  are those of the earlier recipients and of this one, whatever recipients follow. With
  \<^verbatim>\<open>stop_on_error\<close> not set the loop goes on with the next recipient.
\<close>

lemma unclassified_failure_policy:
  assumes nb: "lower ul (strip (or_empty (email r))) \<notin> blacklist_emails"
    and a: "a < retries"
    and pre: "\<forall>i<a. \<exists>m. result (envs i) = Server_disconnected m \<and> reconnect (envs i) = None"
    and cls: "result (envs a) = Recipients_refused info \<and> refused_code_message info = Inr (code, message)
                \<and> code \<noteq> Some 556
              \<or> result (envs a) = Data_error code (Reply message) \<and> code \<noteq> Some 556
              \<or> result (envs a) = Other_exception message"
    and npv: "\<not> str_in (ascii ''policy violation'') (lower ul message)"
    and earlier: "recipient_loop ul cfg blacklist_emails earlier s0 = (evs0, s, Next)"
  shows "\<exists>before s1 row.
           rows_of before = [] \<and> address row = or_empty (email r) \<and> status row = ''failed''
         \<and> process_recipient ul cfg blacklist_emails r envs s =
             (before @ [Send_message (email r), Write_row row], s1,
              if stop_on_error s then Returned else Next)
         \<and> recipient_loop ul cfg blacklist_emails (earlier @ (r, envs) # rest) s0 =
             (if stop_on_error s
              then (evs0 @ before @ [Send_message (email r), Write_row row], s1, Returned)
              else (case recipient_loop ul cfg blacklist_emails rest s1 of
                      (evs2, s2, fl) \<Rightarrow>
                        (evs0 @ (before @ [Send_message (email r), Write_row row]) @ evs2, s2, fl)))"
proof -
  from loop_reaches_attempt[OF a pre, of s ul cfg r] obtain p sa where
    p: "rows_of p = []" and stop: "stop_on_error sa = stop_on_error s" and
    reach: "\<And>evs s2 st. attempt ul cfg r (envs a) a sa = (evs, s2, st) \<Longrightarrow> st \<noteq> Continue \<Longrightarrow>
              attempt_loop ul cfg r envs s [0..<retries] = (p @ evs, s2, st)"
    by blast
  let ?rl = "rate_limit cfg (clock (envs a)) sa"
  let ?st = "if stop_on_error s then Return else Break False False"
  have "\<exists>row. address row = or_empty (email r) \<and> status row = ''failed'' \<and>
      attempt ul cfg r (envs a) a sa = (fst ?rl @ [Send_message (email r), Write_row row], snd ?rl, ?st)"
    using cls
  proof (elim disjE conjE)
    assume "result (envs a) = Other_exception message"
    from attempt_exception[OF this] npv stop show ?thesis
      by (simp add: on_exception_def)
  next
    assume "result (envs a) = Recipients_refused info" "refused_code_message info = Inr (code, message)"
      and c: "code \<noteq> Some 556"
    then have "result (envs a) = Recipients_refused info \<and> refused_code_message info = Inr (code, message)
           \<or> result (envs a) = Data_error code (Reply message)"
      by simp
    from attempt_rejection[OF this] npv stop c show ?thesis
      by (simp add: rejection_policy_def)
  next
    assume "result (envs a) = Data_error code (Reply message)" and c: "code \<noteq> Some 556"
    then have "result (envs a) = Recipients_refused info \<and> refused_code_message info = Inr (code, message)
           \<or> result (envs a) = Data_error code (Reply message)"
      by simp
    from attempt_rejection[OF this] npv stop c show ?thesis
      by (simp add: rejection_policy_def)
  qed
  then obtain row where row: "address row = or_empty (email r)" "status row = ''failed''"
    and att: "attempt ul cfg r (envs a) a sa =
                (fst ?rl @ [Send_message (email r), Write_row row], snd ?rl, ?st)"
    by blast
  let ?evs = "(p @ fst ?rl) @ [Send_message (email r), Write_row row]"
  from reach[OF att]
  have "attempt_loop ul cfg r envs s [0..<retries] = (?evs, snd ?rl, ?st)"
    by simp
  from process_not_blacklisted[OF nb this] stop
  have pr: "process_recipient ul cfg blacklist_emails r envs s =
              (?evs, snd ?rl, if stop_on_error s then Returned else Next)"
    by simp
  have "recipient_loop ul cfg blacklist_emails (earlier @ (r, envs) # rest) s0 =
             (if stop_on_error s
              then (evs0 @ ?evs, snd ?rl, Returned)
              else (case recipient_loop ul cfg blacklist_emails rest (snd ?rl) of
                      (evs2, s2, fl) \<Rightarrow> (evs0 @ ?evs @ evs2, s2, fl)))"
    unfolding recipient_loop_append earlier
    using pr by (simp split: prod.splits)
  moreover have "rows_of (p @ fst ?rl) = []" using p by simp
  ultimately show ?thesis using row pr by blast
qed


lemma unclassified_failure_policy_example:
  "map status (rows_of (fst (recipient_loop no_mapping example_config {}
      ([] @ (ann, script [Server_disconnected (ascii ''closed''), Other_exception (ascii ''timed out'')]) #
         [(ann, script [])]) init_sender))) = [''failed'']
   \<and> snd (snd (recipient_loop no_mapping example_config {}
      ([] @ (ann, script [Server_disconnected (ascii ''closed''), Other_exception (ascii ''timed out'')]) #
         [(ann, script [])]) init_sender)) = Returned
   \<and> map status (rows_of (fst (process_recipient no_mapping example_config {} ann
        (script [Server_disconnected (ascii ''closed''), Other_exception (ascii ''timed out'')])
        (init_sender\<lparr>stop_on_error := False\<rparr>)))) = [''failed'']
   \<and> snd (snd (process_recipient no_mapping example_config {} ann
        (script [Server_disconnected (ascii ''closed''), Other_exception (ascii ''timed out'')])
        (init_sender\<lparr>stop_on_error := False\<rparr>))) = Next"
proof -
  let ?envs = "script [Server_disconnected (ascii ''closed''), Other_exception (ascii ''timed out'')]"
  have nb: "lower no_mapping (strip (or_empty (email ann))) \<notin> {}"
    by simp
  have a: "1 < retries"
    by (simp add: retries_def)
  have pre: "\<forall>i<1. \<exists>m. result (?envs i) = Server_disconnected m \<and> reconnect (?envs i) = None"
    by (simp add: env_with_def)
  have cls: "result (?envs 1) = Recipients_refused (No_info [])
               \<and> refused_code_message (No_info []) = Inr (None, ascii ''timed out'')
               \<and> None \<noteq> Some (556::int)
             \<or> result (?envs 1) = Data_error None (Reply (ascii ''timed out''))
               \<and> None \<noteq> Some (556::int)
             \<or> result (?envs 1) = Other_exception (ascii ''timed out'')"
    by (simp add: env_with_def)
  have npv: "\<not> str_in (ascii ''policy violation'') (lower no_mapping (ascii ''timed out''))"
    by (simp add: text_eval)
  have e1: "recipient_loop no_mapping example_config {} [] init_sender = ([], init_sender, Next)"
    by simp
  have e2: "recipient_loop no_mapping example_config {} [] (init_sender\<lparr>stop_on_error := False\<rparr>) =
              ([], init_sender\<lparr>stop_on_error := False\<rparr>, Next)"
    by simp
  from unclassified_failure_policy[OF nb a pre cls npv e1, of "[(ann, script [])]"]
  obtain before s1 row where "rows_of before = []" "status row = ''failed''"
    and "recipient_loop no_mapping example_config {} ([] @ (ann, ?envs) # [(ann, script [])]) init_sender =
           ([] @ before @ [Send_message (email ann), Write_row row], s1, Returned)"
    by (auto simp: init_sender_def)
  then have stopping: "map status (rows_of (fst (recipient_loop no_mapping example_config {}
      ([] @ (ann, ?envs) # [(ann, script [])]) init_sender))) = [''failed'']
   \<and> snd (snd (recipient_loop no_mapping example_config {}
      ([] @ (ann, ?envs) # [(ann, script [])]) init_sender)) = Returned"
    by simp
  from unclassified_failure_policy[OF nb a pre cls npv e2, of "[]"]
  obtain before s1 row where "rows_of before = []" "status row = ''failed''"
    and "process_recipient no_mapping example_config {} ann ?envs (init_sender\<lparr>stop_on_error := False\<rparr>) =
           (before @ [Send_message (email ann), Write_row row], s1, Next)"
    by (auto simp: init_sender_def)
  then have "map status (rows_of (fst (process_recipient no_mapping example_config {} ann ?envs
        (init_sender\<lparr>stop_on_error := False\<rparr>)))) = [''failed'']
   \<and> snd (snd (process_recipient no_mapping example_config {} ann ?envs
        (init_sender\<lparr>stop_on_error := False\<rparr>))) = Next"
    by simp
  with stopping show ?thesis by blast
qed

text \<open>
  Claim C3 does not hold of the code. The typed handlers decode the reply of the server
  (lines 269 and 308) inside the \<^verbatim>\<open>except\<close> clause: when a rejection with a code other
  than 556 carries a reply that is not UTF-8, decoding raises, no row with status
  \<^verbatim>\<open>failed\<close> is written, and the exception, whatever its message \<open>err\<close>, ends
  the run although \<^verbatim>\<open>stop_on_error\<close> is not set and a recipient is still to come.
\<close>

theorem unclassified_undecodable_reply:
  "recipient_loop ul example_config {}
     [(ann, script [Recipients_refused (Info_tuple 550 (Undecodable err))]), (ann, script [])]
     (init_sender\<lparr>stop_on_error := False\<rparr>) =
   ([Send_message (Some (ascii ''ann@example.org''))],
    init_sender\<lparr>stop_on_error := False\<rparr>,
    Raised err)"
  by (simp add: text_eval run_eval upt_three)

section \<open>The policy-violation text\<close>

text \<open>
  Claim C2, as stated, fails: a rejection with code 556 whose message contains the
  policy-violation text is recorded as \<^verbatim>\<open>skipped\<close> and nothing is slept.
\<close>

theorem policy_violation_every_path_counterexample:
  "str_in (ascii ''policy violation'') (lower no_mapping (ascii ''Policy violation: unknown domain''))
   \<and> process_recipient no_mapping example_config {} ann
       (script [Recipients_refused (Info_tuple 556 (Reply (ascii ''Policy violation: unknown domain'')))])
       init_sender =
     ([Send_message (Some (ascii ''ann@example.org'')),
       Write_row \<lparr>address = ascii ''ann@example.org'', status = ''skipped'',
                   detail = ascii ''556 Policy violation: unknown domain''\<rparr>], init_sender, Next)"
  by (simp add: text_eval run_eval upt_three)

text \<open>
  Claim C2, amended. A rejection whose code is not 556, in either typed handler, or any
  other exception that is not a disconnect, with a message that contains
  \<^verbatim>\<open>policy violation\<close> in any letter case, on any attempt that the loop reaches, writes a
  row with status \<^verbatim>\<open>skipped_policy_violation\<close>, sleeps 600 seconds, and the engine goes
  on with the next recipient whatever the value of \<^verbatim>\<open>stop_on_error\<close>; the text is
  looked for before the failure is recorded as \<^verbatim>\<open>failed\<close>.
\<close>

theorem policy_violation_pauses_and_continues:
  assumes nb: "lower ul (strip (or_empty (email r))) \<notin> blacklist_emails"
    and a: "a < retries"
    and pre: "\<forall>i<a. \<exists>m. result (envs i) = Server_disconnected m \<and> reconnect (envs i) = None"
    and cls: "result (envs a) = Recipients_refused info \<and> refused_code_message info = Inr (code, message)
                \<and> code \<noteq> Some 556
              \<or> result (envs a) = Data_error code (Reply message) \<and> code \<noteq> Some 556
              \<or> result (envs a) = Other_exception message"
    and pv: "str_in (ascii ''policy violation'') (lower ul message)"
  shows "\<exists>before s1 row.
           rows_of before = [] \<and> address row = or_empty (email r)
         \<and> status row = ''skipped_policy_violation''
         \<and> process_recipient ul cfg blacklist_emails r envs s =
             (before @ [Send_message (email r), Write_row row, Sleep 600], s1, Next)
         \<and> recipient_loop ul cfg blacklist_emails ((r, envs) # rest) s =
             (case recipient_loop ul cfg blacklist_emails rest s1 of
                (evs2, s2, fl) \<Rightarrow>
                  ((before @ [Send_message (email r), Write_row row, Sleep 600]) @ evs2, s2, fl))"
proof -
  from loop_reaches_attempt[OF a pre, of s ul cfg r] obtain p sa where
    p: "rows_of p = []" and
    reach: "\<And>evs s2 st. attempt ul cfg r (envs a) a sa = (evs, s2, st) \<Longrightarrow> st \<noteq> Continue \<Longrightarrow>
              attempt_loop ul cfg r envs s [0..<retries] = (p @ evs, s2, st)"
    by blast
  let ?rl = "rate_limit cfg (clock (envs a)) sa"
  have "\<exists>row. address row = or_empty (email r) \<and> status row = ''skipped_policy_violation'' \<and>
      attempt ul cfg r (envs a) a sa =
        (fst ?rl @ [Send_message (email r), Write_row row, Sleep 600], snd ?rl, Break False True)"
    using cls
  proof (elim disjE conjE)
    assume "result (envs a) = Other_exception message"
    from attempt_exception[OF this] pv show ?thesis
      by (simp add: on_exception_def)
  next
    assume "result (envs a) = Recipients_refused info" "refused_code_message info = Inr (code, message)"
      and c: "code \<noteq> Some 556"
    then have "result (envs a) = Recipients_refused info \<and> refused_code_message info = Inr (code, message)
           \<or> result (envs a) = Data_error code (Reply message)"
      by simp
    from attempt_rejection[OF this] pv c show ?thesis
      by (simp add: rejection_policy_def)
  next
    assume "result (envs a) = Data_error code (Reply message)" and c: "code \<noteq> Some 556"
    then have "result (envs a) = Recipients_refused info \<and> refused_code_message info = Inr (code, message)
           \<or> result (envs a) = Data_error code (Reply message)"
      by simp
    from attempt_rejection[OF this] pv c show ?thesis
      by (simp add: rejection_policy_def)
  qed
  then obtain row where row: "address row = or_empty (email r)"
      "status row = ''skipped_policy_violation''"
    and att: "attempt ul cfg r (envs a) a sa =
                (fst ?rl @ [Send_message (email r), Write_row row, Sleep 600], snd ?rl,
                 Break False True)"
    by blast
  let ?evs = "(p @ fst ?rl) @ [Send_message (email r), Write_row row, Sleep 600]"
  from reach[OF att]
  have "attempt_loop ul cfg r envs s [0..<retries] = (?evs, snd ?rl, Break False True)"
    by simp
  from process_not_blacklisted[OF nb this]
  have pr: "process_recipient ul cfg blacklist_emails r envs s = (?evs, snd ?rl, Next)"
    by simp
  moreover note recipient_loop_next[OF pr, of rest]
  moreover have "rows_of (p @ fst ?rl) = []" using p by simp
  ultimately show ?thesis using row by blast
qed

theorem policy_violation_pauses_and_continues_witness:
  "map status (rows_of (fst (process_recipient no_mapping example_config {} ann
        (script [Data_error (Some 550) (Reply (ascii ''5.7.1 POLICY VIOLATION detected''))]) init_sender))) =
     [''skipped_policy_violation'']
   \<and> slept (fst (process_recipient no_mapping example_config {} ann
        (script [Data_error (Some 550) (Reply (ascii ''5.7.1 POLICY VIOLATION detected''))]) init_sender)) = 600
   \<and> snd (snd (process_recipient no_mapping example_config {} ann
        (script [Data_error (Some 550) (Reply (ascii ''5.7.1 POLICY VIOLATION detected''))]) init_sender)) = Next"
proof -
  let ?envs = "script [Data_error (Some 550) (Reply (ascii ''5.7.1 POLICY VIOLATION detected''))]"
  have nb: "lower no_mapping (strip (or_empty (email ann))) \<notin> {}"
    by simp
  have a: "0 < retries"
    by (simp add: retries_def)
  have pre: "\<forall>i<0. \<exists>m. result (?envs i) = Server_disconnected m \<and> reconnect (?envs i) = None"
    by simp
  have cls: "result (?envs 0) = Recipients_refused (No_info [])
               \<and> refused_code_message (No_info []) =
                   Inr (Some 550, ascii ''5.7.1 POLICY VIOLATION detected'')
               \<and> Some 550 \<noteq> Some (556::int)
             \<or> result (?envs 0) = Data_error (Some 550) (Reply (ascii ''5.7.1 POLICY VIOLATION detected''))
               \<and> Some 550 \<noteq> Some (556::int)
             \<or> result (?envs 0) = Other_exception (ascii ''5.7.1 POLICY VIOLATION detected'')"
    by (simp add: env_with_def)
  have pv: "str_in (ascii ''policy violation'') (lower no_mapping (ascii ''5.7.1 POLICY VIOLATION detected''))"
    by (simp add: text_eval)
  have ev: "process_recipient no_mapping example_config {} ann ?envs init_sender =
      ([Send_message (Some (ascii ''ann@example.org'')),
        Write_row \<lparr>address = ascii ''ann@example.org'', status = ''skipped_policy_violation'',
                    detail = ascii ''550 5.7.1 POLICY VIOLATION detected''\<rparr>, Sleep 600],
       init_sender, Next)"
    by (simp add: text_eval run_eval upt_three)
  from policy_violation_pauses_and_continues[OF nb a pre cls pv, of example_config init_sender "[]"]
  obtain before s1 row where "rows_of before = []" "status row = ''skipped_policy_violation''"
    and "process_recipient no_mapping example_config {} ann ?envs init_sender =
           (before @ [Send_message (email ann), Write_row row, Sleep 600], s1, Next)"
    by blast
  with ev show ?thesis
    by simp
qed

section \<open>Disconnects that outlast the attempts\<close>

text \<open>
  When the send of the third attempt ends in a disconnect, after two disconnects with a
  reopened session, the disconnect is raised again inside its \<^verbatim>\<open>except\<close> clause
  (line 258) and leaves the recipient loop: the send is the last event, so no row is
  written and nothing is slept after it, whatever the message of the disconnect, the
  value of \<^verbatim>\<open>stop_on_error\<close> and the recipients that follow.
\<close>

lemma exhausted_disconnect_is_raised:
  assumes nb: "lower ul (strip (or_empty (email r))) \<notin> blacklist_emails"
    and pre: "\<forall>i<retries - 1. \<exists>m. result (envs i) = Server_disconnected m \<and> reconnect (envs i) = None"
    and last: "result (envs (retries - 1)) = Server_disconnected msg"
  shows "\<exists>before s1.
           rows_of before = []
         \<and> process_recipient ul cfg blacklist_emails r envs s =
             (before @ [Send_message (email r)], s1, Raised msg)
         \<and> recipient_loop ul cfg blacklist_emails ((r, envs) # rest) s =
             (before @ [Send_message (email r)], s1, Raised msg)"
proof -
  have a: "retries - 1 < retries" by (simp add: retries_def)
  from loop_reaches_attempt[OF a pre, of s ul cfg r] obtain p sa where
    p: "rows_of p = []" and
    reach: "\<And>evs s2 st. attempt ul cfg r (envs (retries - 1)) (retries - 1) sa = (evs, s2, st)
              \<Longrightarrow> st \<noteq> Continue \<Longrightarrow>
              attempt_loop ul cfg r envs s [0..<retries] = (p @ evs, s2, st)"
    by blast
  let ?rl = "rate_limit cfg (clock (envs (retries - 1))) sa"
  have "attempt ul cfg r (envs (retries - 1)) (retries - 1) sa =
          (fst ?rl @ [Send_message (email r)], snd ?rl, Raise msg)"
    using attempt_last_disconnect[OF last, of ul cfg r sa] by (simp add: retries_def)
  from reach[OF this]
  have "attempt_loop ul cfg r envs s [0..<retries] =
          ((p @ fst ?rl) @ [Send_message (email r)], snd ?rl, Raise msg)"
    by simp
  from process_not_blacklisted[OF nb this]
  have pr: "process_recipient ul cfg blacklist_emails r envs s =
          ((p @ fst ?rl) @ [Send_message (email r)], snd ?rl, Raised msg)"
    by simp
  moreover from recipient_loop_end[OF pr, of rest]
  have "recipient_loop ul cfg blacklist_emails ((r, envs) # rest) s =
          ((p @ fst ?rl) @ [Send_message (email r)], snd ?rl, Raised msg)"
    by simp
  moreover have "rows_of (p @ fst ?rl) = []" using p by simp
  ultimately show ?thesis by blast
qed

text \<open>
  Claim C1 does not hold of the code. With \<^verbatim>\<open>stop_on_error\<close> not set and a recipient
  still to come, three disconnects in a row write no row for the recipient and sleep only
  the five seconds before each retry, and the last disconnect ends the run as an
  exception: the handler of the other exceptions, which would write the row with status
  \<^verbatim>\<open>failed\<close>, and the check after the attempts of lines 364 to 370 are never reached.
\<close>

theorem exhausted_disconnect_ends_run:
  "recipient_loop ul example_config {}
     [(ann, script [Server_disconnected (ascii ''Connection unexpectedly closed''),
                    Server_disconnected (ascii ''Connection unexpectedly closed''),
                    Server_disconnected (ascii ''Connection unexpectedly closed'')]),
      (ann, script [])]
     (init_sender\<lparr>stop_on_error := False\<rparr>) =
   ([Send_message (Some (ascii ''ann@example.org'')), Sleep 5, Reconnect,
     Send_message (Some (ascii ''ann@example.org'')), Sleep 5, Reconnect,
     Send_message (Some (ascii ''ann@example.org''))],
    init_sender\<lparr>stop_on_error := False\<rparr>,
    Raised (ascii ''Connection unexpectedly closed''))"
  by (simp add: text_eval run_eval upt_three numeral_2_eq_2)

section \<open>Failures before the first send\<close>

lemmas start_eval = send_newsletters_def read_blacklist_def main_def run_with_def

text \<open>
  Claim C7, as stated, fails: a suppression file that cannot be read is caught inside
  \<^verbatim>\<open>send_newsletters\<close>, which returns without an exception, and the script ends with
  its message of success.
\<close>

theorem blacklist_failure_propagates_counterexample:
  "ending (send_newsletters no_mapping example_config True
             (run_with (Inl (ascii ''No such file or directory'')) None [(ann, script [])])
             init_sender) = Returned
   \<and> main no_mapping example_config (run_with (Inl (ascii ''No such file or directory'')) None [(ann, script [])]) =
       Exit_ok"
  by (simp add: start_eval)

text \<open>
  Claim C7, amended. The failures of the start happen before any send attempt, write no
  row and leave no results file. A failing connection test (authentication failure,
  unreachable relay) is not caught: it leaves \<^verbatim>\<open>send_newsletters\<close> as an exception and
  ends the process with an error. A suppression file that cannot be read is caught inside
  \<^verbatim>\<open>send_newsletters\<close>, which returns at once.
\<close>

theorem startup_failures_send_nothing:
  "(blacklist_file env = Inl err \<longrightarrow>
      send_newsletters ul cfg stop env s =
        \<lparr>trace = [], sender_after = s\<lparr>stop_on_error := stop\<rparr>, ending = Returned,
         results_file = None\<rparr>
      \<and> main ul cfg env = Exit_ok)
 \<and> (blacklist_file env = Inr content \<and> connection_test env = Some err \<longrightarrow>
      send_newsletters ul cfg stop env s =
        \<lparr>trace = [], sender_after = s\<lparr>stop_on_error := stop\<rparr>, ending = Raised err,
         results_file = None\<rparr>
      \<and> main ul cfg env = Exit_error err)"
  by (cases content) (simp add: start_eval)

theorem startup_failures_send_nothing_witness:
  "send_newsletters no_mapping example_config False
     (run_with (Inl (ascii ''Permission denied'')) None [(ann, script [])]) init_sender =
     \<lparr>trace = [], sender_after = init_sender\<lparr>stop_on_error := False\<rparr>, ending = Returned,
      results_file = None\<rparr>
   \<and> send_newsletters no_mapping example_config False
     (run_with (Inr (ascii ''email'', [[ascii ''email'']])) (Some (ascii ''Authentication failed'')) [(ann, script [])])
     init_sender =
     \<lparr>trace = [], sender_after = init_sender\<lparr>stop_on_error := False\<rparr>,
      ending = Raised (ascii ''Authentication failed''), results_file = None\<rparr>
   \<and> main no_mapping example_config
     (run_with (Inr (ascii ''email'', [[ascii ''email'']])) (Some (ascii ''Authentication failed'')) [(ann, script [])]) =
     Exit_error (ascii ''Authentication failed'')"
  using startup_failures_send_nothing[where
      env = "run_with (Inl (ascii ''Permission denied'')) None [(ann, script [])]"
      and err = "ascii ''Permission denied''" and ul = no_mapping and cfg = example_config and stop = False
      and s = init_sender]
    startup_failures_send_nothing[where
      env = "run_with (Inr (ascii ''email'', [[ascii ''email'']])) (Some (ascii ''Authentication failed'')) [(ann, script [])]"
      and err = "ascii ''Authentication failed''" and ul = no_mapping and content = "(ascii ''email'', [[ascii ''email'']])"
      and cfg = example_config and stop = False and s = init_sender]
  by (simp add: run_with_def)

section \<open>Rows of the results file\<close>

lemma strip_idem: "strip (strip s) = strip s"
proof (cases "dropWhile is_space s")
  case Nil
  show ?thesis unfolding strip_def Nil by simp
next
  case (Cons x t)
  then have nx: "\<not> is_space x"
    using hd_dropWhile[of is_space s] by simp
  have A: "rev (dropWhile is_space (rev (x # t))) = x # rev (dropWhile is_space (rev t))" for t
    using nx by (simp add: dropWhile_append3)
  show ?thesis
    unfolding strip_def Cons A using nx by (simp add: dropWhile_append3)
qed

lemma subseq_distinct: "subseq xs ys \<Longrightarrow> distinct ys \<Longrightarrow> distinct xs"
  by (induction rule: list_emb.induct) (auto dest: list_emb_set)

lemma distinct_map_comp: "distinct (map (\<lambda>x. f (g x)) xs) \<Longrightarrow> distinct (map g xs)"
  by (induction xs) auto


lemma attempt_rows:
  "rows_of (fst (attempt ul cfg r env a s)) = []
   \<or> (\<exists>row. rows_of (fst (attempt ul cfg r env a s)) = [row]
          \<and> address row = or_empty (email r)
          \<and> status row \<in> {''success'', ''skipped'', ''skipped_policy_violation'', ''failed''}
          \<and> snd (snd (attempt ul cfg r env a s)) \<noteq> Continue)"
proof (cases "result env")
  case Sent
  then show ?thesis by (simp add: attempt_def split_beta)
next
  case (Server_disconnected m)
  then show ?thesis
    by (simp add: attempt_def split_beta on_disconnected_def split: option.splits)
next
  case (Recipients_refused info)
  then show ?thesis
    by (simp add: attempt_def split_beta on_recipients_refused_def rejection_policy_def
        split: sum.splits)
next
  case (Data_error code message)
  then show ?thesis
    by (simp add: attempt_def split_beta on_data_error_def rejection_policy_def
        split: sum.splits)
next
  case (Other_exception m)
  then show ?thesis
    by (simp add: attempt_def split_beta on_exception_def)
qed

lemma attempt_loop_rows:
  "rows_of (fst (attempt_loop ul cfg r envs s as)) = []
   \<or> (\<exists>row. rows_of (fst (attempt_loop ul cfg r envs s as)) = [row]
          \<and> address row = or_empty (email r)
          \<and> status row \<in> {''success'', ''skipped'', ''skipped_policy_violation'', ''failed''})"
proof (induction as arbitrary: s)
  case Nil
  then show ?case by simp
next
  case (Cons a as)
  obtain evs s1 st where att: "attempt ul cfg r (envs a) a s = (evs, s1, st)"
    by (metis prod_cases3)
  show ?case
  proof (cases "st = Continue")
    case True
    with att attempt_rows[of ul cfg r "envs a" a s] have "rows_of evs = []"
      by auto
    with att True Cons.IH[of s1] show ?thesis
      by (simp add: split_beta)
  next
    case False
    with att have "attempt_loop ul cfg r envs s (a # as) = (evs, s1, st)"
      by (cases st) simp_all
    with att attempt_rows[of ul cfg r "envs a" a s] show ?thesis
      by auto
  qed
qed

lemma process_recipient_rows:
  "rows_of (fst (process_recipient ul cfg bl r envs s)) = []
   \<or> (\<exists>row. rows_of (fst (process_recipient ul cfg bl r envs s)) = [row]
          \<and> strip (address row) = strip (or_empty (email r))
          \<and> status row \<in> {''success'', ''skipped_blacklist'', ''skipped'',
                            ''skipped_policy_violation'', ''failed''})"
proof (cases "lower ul (strip (or_empty (email r))) \<in> bl")
  case True
  then show ?thesis by (simp add: process_recipient_def strip_idem)
next
  case False
  obtain evs s1 st where l: "attempt_loop ul cfg r envs s [0..<retries] = (evs, s1, st)"
    by (metis prod_cases3)
  from process_not_blacklisted[OF False l]
  have "fst (process_recipient ul cfg bl r envs s) = evs" by simp
  with l attempt_loop_rows[of ul cfg r envs s "[0..<retries]"] show ?thesis
    by auto
qed

lemma recipient_loop_rows:
  "subseq (map (\<lambda>row. strip (address row)) (rows_of (fst (recipient_loop ul cfg bl rs s))))
          (map (\<lambda>(r, envs). strip (or_empty (email r))) rs)
   \<and> (\<forall>row \<in> set (rows_of (fst (recipient_loop ul cfg bl rs s))).
         status row \<in> {''success'', ''skipped_blacklist'', ''skipped'',
                            ''skipped_policy_violation'', ''failed''})"
proof (induction rs arbitrary: s)
  case Nil
  then show ?case by simp
next
  case (Cons x rs)
  obtain r envs where x: "x = (r, envs)" by (cases x)
  obtain evs s1 fl where p: "process_recipient ul cfg bl r envs s = (evs, s1, fl)"
    by (metis prod_cases3)
  let ?rest = "if fl = Next then rows_of (fst (recipient_loop ul cfg bl rs s1)) else []"
  have rows: "rows_of (fst (recipient_loop ul cfg bl (x # rs) s)) = rows_of evs @ ?rest"
    using p x by (cases fl) (simp_all add: split_beta)
  have rest: "subseq (map (\<lambda>row. strip (address row)) ?rest)
          (map (\<lambda>(r, envs). strip (or_empty (email r))) rs)
      \<and> (\<forall>row \<in> set ?rest.
         status row \<in> {''success'', ''skipped_blacklist'', ''skipped'',
                            ''skipped_policy_violation'', ''failed''})"
    using Cons.IH[of s1] by simp
  from process_recipient_rows[of ul cfg bl r envs s] p
  have "rows_of evs = []
   \<or> (\<exists>row. rows_of evs = [row]
          \<and> strip (address row) = strip (or_empty (email r))
          \<and> status row \<in> {''success'', ''skipped_blacklist'', ''skipped'',
                            ''skipped_policy_violation'', ''failed''})"
    by simp
  then show ?case
  proof
    assume "rows_of evs = []"
    with rows rest x show ?thesis by auto
  next
    assume "\<exists>row. rows_of evs = [row]
          \<and> strip (address row) = strip (or_empty (email r))
          \<and> status row \<in> {''success'', ''skipped_blacklist'', ''skipped'',
                            ''skipped_policy_violation'', ''failed''}"
    then obtain row where "rows_of evs = [row]"
      "strip (address row) = strip (or_empty (email r))"
      "status row \<in> {''success'', ''skipped_blacklist'', ''skipped'',
                            ''skipped_policy_violation'', ''failed''}"
      by blast
    with rows rest x show ?thesis by auto
  qed
qed


text \<open>
  Claim C9, as stated, fails: an address that the recipient file holds twice is written
  twice to the results file.
\<close>

theorem address_at_most_once_counterexample:
  "results_file (send_newsletters no_mapping example_config False
      (run_with (Inr ([], [])) None [(ann, script []), (ann, script [])]) init_sender) =
   Some [\<lparr>address = ascii ''ann@example.org'', status = ''success'', detail = []\<rparr>,
         \<lparr>address = ascii ''ann@example.org'', status = ''success'', detail = []\<rparr>]"
  by (simp add: start_eval parse_blacklist_def has_header_def text_eval run_eval upt_three Let_def)

text \<open>
  Claim C9, amended. Every row of the recipient file yields at most one row of the results
  file, in the order of the file, with the address of the recipient up to trimming and
  with a status from the closed set; so when the addresses of the recipient file are
  pairwise distinct after trimming, every address appears at most once in the results
  file.
\<close>

theorem results_rows_follow_recipients:
  assumes rd: "recipients_read env = Inr recipients"
    and res: "results_file (send_newsletters ul cfg stop env s) = Some rows"
  shows "length rows \<le> length recipients
       \<and> subseq (map (\<lambda>row. strip (address row)) rows)
                (map (\<lambda>(r, envs). strip (or_empty (email r))) recipients)
       \<and> (\<forall>row \<in> set rows.
            status row \<in> {''success'', ''skipped_blacklist'', ''skipped'',
                            ''skipped_policy_violation'', ''failed''})
       \<and> (distinct (map (\<lambda>(r, envs). strip (or_empty (email r))) recipients) \<longrightarrow>
            distinct (map address rows))"
proof -
  have "rows = [] \<or> (\<exists>bl s0. rows = rows_of (fst (recipient_loop ul cfg bl recipients s0)))"
    using rd res
    by (auto simp add: send_newsletters_def Let_def split_beta
        split: sum.splits option.splits)
  then have sub: "subseq (map (\<lambda>row. strip (address row)) rows)
                (map (\<lambda>(r, envs). strip (or_empty (email r))) recipients)"
    and st: "\<forall>row \<in> set rows.
            status row \<in> {''success'', ''skipped_blacklist'', ''skipped'',
                            ''skipped_policy_violation'', ''failed''}"
    using recipient_loop_rows[of ul cfg _ recipients] by auto
  from sub have "length (map (\<lambda>row. strip (address row)) rows)
       \<le> length (map (\<lambda>(r, envs). strip (or_empty (email r))) recipients)"
    by (rule list_emb_length)
  then have len: "length rows \<le> length recipients" by simp
  have "distinct (map address rows)"
    if "distinct (map (\<lambda>(r, envs). strip (or_empty (email r))) recipients)"
    using subseq_distinct[OF sub that] by (rule distinct_map_comp)
  with sub st len show ?thesis by blast
qed

theorem results_rows_follow_recipients_witness:
  "results_file (send_newsletters no_mapping example_config False
      (run_with (Inr ([], [[ascii ''Bob@Example.org '']])) None
         [(ann, script [Other_exception (ascii ''timed out'')]),
          (\<lparr>email = Some (ascii '' bob@example.org'')\<rparr>, script [])]) init_sender) =
   Some [\<lparr>address = ascii ''ann@example.org'', status = ''failed'', detail = ascii ''timed out''\<rparr>,
         \<lparr>address = ascii ''bob@example.org'', status = ''skipped_blacklist'',
            detail = ascii ''blacklisted''\<rparr>]
   \<and> distinct (map address
        [\<lparr>address = ascii ''ann@example.org'', status = ''failed'', detail = ascii ''timed out''\<rparr>,
         \<lparr>address = ascii ''bob@example.org'', status = ''skipped_blacklist'',
            detail = ascii ''blacklisted''\<rparr>])"
proof -
  let ?env = "run_with (Inr ([], [[ascii ''Bob@Example.org '']])) None
         [(ann, script [Other_exception (ascii ''timed out'')]),
          (\<lparr>email = Some (ascii '' bob@example.org'')\<rparr>, script [])]"
  let ?rows = "[\<lparr>address = ascii ''ann@example.org'', status = ''failed'', detail = ascii ''timed out''\<rparr>,
         \<lparr>address = ascii ''bob@example.org'', status = ''skipped_blacklist'',
            detail = ascii ''blacklisted''\<rparr>]"
  have rd: "recipients_read ?env = Inr [(ann, script [Other_exception (ascii ''timed out'')]),
          (\<lparr>email = Some (ascii '' bob@example.org'')\<rparr>, script [])]"
    by (simp add: run_with_def)
  have res: "results_file (send_newsletters no_mapping example_config False ?env init_sender) = Some ?rows"
    by (simp add: start_eval parse_blacklist_def has_header_def add_headerless_def
        text_eval run_eval upt_three Let_def)
  have "distinct (map (\<lambda>(r, envs). strip (or_empty (email r)))
          [(ann, script [Other_exception (ascii ''timed out'')]),
           (\<lparr>email = Some (ascii '' bob@example.org'')\<rparr>, script [])])"
    by (simp add: text_eval ann_def)
  with results_rows_follow_recipients[OF rd res] have "distinct (map address ?rows)"
    by blast
  with res show ?thesis by blast
qed

section \<open>The suppression list loader\<close>

lemma map_upds_last:
  "i < length ks \<Longrightarrow> i < length vs \<Longrightarrow> ks ! i = k \<Longrightarrow>
   (\<forall>j. i < j \<and> j < length ks \<and> j < length vs \<longrightarrow> ks ! j \<noteq> k) \<Longrightarrow>
   (m(ks [\<mapsto>] vs)) k = Some (vs ! i)"
proof (induction ks arbitrary: m vs i)
  case Nil
  then show ?case by simp
next
  case (Cons a ks)
  from Cons.prems(2) obtain b vs' where vs: "vs = b # vs'" by (cases vs) auto
  show ?case
  proof (cases i)
    case 0
    have "k \<notin> set (take (length vs') ks)"
    proof
      assume "k \<in> set (take (length vs') ks)"
      then obtain j where "j < length (take (length vs') ks)" "take (length vs') ks ! j = k"
        by (auto simp: in_set_conv_nth)
      then have "Suc j < length (a # ks)" "Suc j < length vs" "(a # ks) ! Suc j = k"
        using vs by auto
      with Cons.prems(4) 0 show False by blast
    qed
    with 0 Cons.prems(3) vs show ?thesis
      by (simp add: map_upd_upds_conv_if)
  next
    case (Suc i')
    have "((m(a \<mapsto> b))(ks [\<mapsto>] vs')) k = Some (vs' ! i')"
    proof (rule Cons.IH)
      show "i' < length ks" using Cons.prems(1) Suc by simp
      show "i' < length vs'" using Cons.prems(2) Suc vs by simp
      show "ks ! i' = k" using Cons.prems(3) Suc by simp
      show "\<forall>j. i' < j \<and> j < length ks \<and> j < length vs' \<longrightarrow> ks ! j \<noteq> k"
      proof (intro allI impI)
        fix j assume "i' < j \<and> j < length ks \<and> j < length vs'"
        then have "i < Suc j \<and> Suc j < length (a # ks) \<and> Suc j < length vs"
          using Suc vs by simp
        with Cons.prems(4) have "(a # ks) ! Suc j \<noteq> k" by blast
        then show "ks ! j \<noteq> k" by simp
      qed
    qed
    with Suc vs show ?thesis by simp
  qed
qed

lemma get_email_dict_row:
  assumes i: "i < length fieldnames" and e: "fieldnames ! i = ascii ''email''"
    and last: "\<forall>j. i < j \<and> j < length fieldnames \<longrightarrow> fieldnames ! j \<noteq> ascii ''email''"
  shows "get_email (dict_row fieldnames row) = (if i < length row then Some (row ! i) else None)"
proof (cases "i < length row")
  case True
  have "ascii ''email'' \<notin> set (drop (length row) fieldnames)"
  proof
    assume "ascii ''email'' \<in> set (drop (length row) fieldnames)"
    then obtain j where "j < length (drop (length row) fieldnames)"
      "drop (length row) fieldnames ! j = ascii ''email''"
      by (auto simp: in_set_conv_nth)
    then have "length row + j < length fieldnames" "fieldnames ! (length row + j) = ascii ''email''"
      by auto
    with last True show False
      by (metis trans_less_add1)
  qed
  moreover have "(Map.empty(fieldnames [\<mapsto>] map Some row)) (ascii ''email'') = Some (map Some row ! i)"
    by (rule map_upds_last) (use i e last True in auto)
  ultimately show ?thesis using True
    by (simp add: get_email_def dict_row_def)
next
  case False
  let ?ks = "drop (length row) fieldnames"
  let ?vs = "replicate (length fieldnames - length row) (None :: str option)"
  have "(m(?ks [\<mapsto>] ?vs)) (ascii ''email'') = Some (?vs ! (i - length row))" for m
  proof (rule map_upds_last)
    show "i - length row < length ?ks" using False i by simp
    show "i - length row < length ?vs" using False i by simp
    show "?ks ! (i - length row) = ascii ''email''" using False i e by simp
    show "\<forall>j. i - length row < j \<and> j < length ?ks \<and> j < length ?vs \<longrightarrow> ?ks ! j \<noteq> ascii ''email''"
    proof (intro allI impI)
      fix j assume j: "i - length row < j \<and> j < length ?ks \<and> j < length ?vs"
      then have "i < length row + j \<and> length row + j < length fieldnames"
        using False by auto
      with last have "fieldnames ! (length row + j) \<noteq> ascii ''email''" by blast
      then show "?ks ! j \<noteq> ascii ''email''" using j False i by simp
    qed
  qed
  moreover have "?vs ! (i - length row) = None" using False i by simp
  ultimately show ?thesis using False
    by (simp add: get_email_def dict_row_def)
qed

lemma fold_add_headered:
  "fold (add_headered ul) ds acc =
     acc \<union> {e. \<exists>d \<in> set ds. e = lower ul (strip (or_empty (get_email d))) \<and> e \<noteq> []}"
  by (induction ds arbitrary: acc) (auto simp add: add_headered_def Let_def)

lemma fold_add_headerless:
  "fold (add_headerless ul) rows acc =
     acc \<union> {e. \<exists>row \<in> set rows. row \<noteq> [] \<and> e = lower ul (strip (hd row)) \<and> e \<noteq> []
                  \<and> e \<noteq> ascii ''email''}"
  by (induction rows arbitrary: acc)
     (auto simp add: add_headerless_def Let_def split: list.splits)



lemma parse_headered:
  assumes h: "has_header ul peek" and i: "i < length fieldnames" and e: "fieldnames ! i = ascii ''email''"
    and last: "\<forall>j. i < j \<and> j < length fieldnames \<longrightarrow> fieldnames ! j \<noteq> ascii ''email''"
  shows "parse_blacklist ul peek (fieldnames # data) =
        {e. \<exists>row \<in> set data. i < length row \<and> e = lower ul (strip (row ! i)) \<and> e \<noteq> []}"
proof -
  have g: "get_email (dict_row fieldnames row) = (if i < length row then Some (row ! i) else None)"
    for row
    using i e last by (rule get_email_dict_row)
  have s0: "lower ul (strip []) = []"
    by (simp add: strip_def lower_def)
  have "parse_blacklist ul peek (fieldnames # data) =
      {e. \<exists>d \<in> set (map (dict_row fieldnames) (filter (\<lambda>row. row \<noteq> []) data)).
            e = lower ul (strip (or_empty (get_email d))) \<and> e \<noteq> []}"
    using h by (simp add: parse_blacklist_def fold_add_headered)
  also have "\<dots> = {e. \<exists>row \<in> set data. row \<noteq> [] \<and>
            e = lower ul (strip (or_empty (if i < length row then Some (row ! i) else None)))
            \<and> e \<noteq> []}"
    by (auto simp add: g)
  also have "\<dots> = {e. \<exists>row \<in> set data. i < length row \<and> e = lower ul (strip (row ! i)) \<and> e \<noteq> []}"
  proof (rule Collect_cong, rule bex_cong[OF refl])
    fix e row assume "row \<in> set data"
    show "(row \<noteq> [] \<and>
            e = lower ul (strip (or_empty (if i < length row then Some (row ! i) else None)))
            \<and> e \<noteq> []) = (i < length row \<and> e = lower ul (strip (row ! i)) \<and> e \<noteq> [])"
      using s0 by (cases "i < length row") (auto simp add: or_empty_def)
  qed
  finally show ?thesis .
qed

lemma parse_no_email_column:
  assumes h: "has_header ul peek" and no: "ascii ''email'' \<notin> set fieldnames"
  shows "parse_blacklist ul peek (fieldnames # data) = {}"
proof -
  have "ascii ''email'' \<notin> set (drop (length row) fieldnames)" for row :: "str list"
    using no by (auto dest: in_set_dropD)
  then have g: "get_email (dict_row fieldnames row) = None" for row
    using no by (simp add: get_email_def dict_row_def)
  have "lower ul (strip []) = []"
    by (simp add: strip_def lower_def)
  then show ?thesis
    using h by (auto simp add: parse_blacklist_def fold_add_headered g or_empty_def)
qed

lemma parse_headerless:
  assumes "\<not> has_header ul peek"
  shows "parse_blacklist ul peek rows =
        {e. \<exists>row \<in> set rows. row \<noteq> [] \<and> e = lower ul (strip (hd row)) \<and> e \<noteq> []
              \<and> e \<noteq> ascii ''email''}"
  using assms by (simp add: parse_blacklist_def fold_add_headerless)



text \<open>
  What the loader computes. The file is read as headered exactly when its first line
  contains \<^verbatim>\<open>email\<close> in any letter case: the set then holds the normalised non-empty
  cells of the column named \<^verbatim>\<open>email\<close> (of the last such column, should the name occur
  twice) and is empty when the first row has no column of exactly that name. Otherwise the
  set holds the normalised non-empty first cells of the rows, except that a first cell
  that normalises to \<^verbatim>\<open>email\<close> is passed over. The empty text is never in the set.
\<close>

lemma blacklist_loader:
  "read_blacklist ul (Inr (peek, rows)) = Inr (parse_blacklist ul peek rows)
 \<and> [] \<notin> parse_blacklist ul peek rows
 \<and> (has_header ul peek \<and> i < length fieldnames \<and> fieldnames ! i = ascii ''email''
      \<and> (\<forall>j. i < j \<and> j < length fieldnames \<longrightarrow> fieldnames ! j \<noteq> ascii ''email'') \<longrightarrow>
      parse_blacklist ul peek (fieldnames # data) =
        {e. \<exists>row \<in> set data. i < length row \<and> e = lower ul (strip (row ! i)) \<and> e \<noteq> []})
 \<and> (has_header ul peek \<and> ascii ''email'' \<notin> set fieldnames \<longrightarrow>
      parse_blacklist ul peek (fieldnames # data) = {})
 \<and> (\<not> has_header ul peek \<longrightarrow>
      parse_blacklist ul peek rows =
        {e. \<exists>row \<in> set rows. row \<noteq> [] \<and> e = lower ul (strip (hd row)) \<and> e \<noteq> []
              \<and> e \<noteq> ascii ''email''}
      \<and> ascii ''email'' \<notin> parse_blacklist ul peek rows)"
proof (intro conjI impI)
  show "read_blacklist ul (Inr (peek, rows)) = Inr (parse_blacklist ul peek rows)"
    by (simp add: read_blacklist_def)
  show "[] \<notin> parse_blacklist ul peek rows"
    by (auto simp add: parse_blacklist_def fold_add_headered fold_add_headerless)
next
  assume "has_header ul peek \<and> i < length fieldnames \<and> fieldnames ! i = ascii ''email''
      \<and> (\<forall>j. i < j \<and> j < length fieldnames \<longrightarrow> fieldnames ! j \<noteq> ascii ''email'')"
  then show "parse_blacklist ul peek (fieldnames # data) =
        {e. \<exists>row \<in> set data. i < length row \<and> e = lower ul (strip (row ! i)) \<and> e \<noteq> []}"
    using parse_headered[of ul peek i fieldnames data] by blast
next
  assume "has_header ul peek \<and> ascii ''email'' \<notin> set fieldnames"
  then show "parse_blacklist ul peek (fieldnames # data) = {}"
    using parse_no_email_column[of ul peek fieldnames data] by blast
next
  assume h: "\<not> has_header ul peek"
  then show eq: "parse_blacklist ul peek rows =
        {e. \<exists>row \<in> set rows. row \<noteq> [] \<and> e = lower ul (strip (hd row)) \<and> e \<noteq> []
              \<and> e \<noteq> ascii ''email''}"
    by (rule parse_headerless)
  show "ascii ''email'' \<notin> parse_blacklist ul peek rows"
    unfolding eq by blast
qed

lemmas loader_eval = parse_blacklist_def has_header_def add_headered_def add_headerless_def
  dict_row_def get_email_def

text \<open>A file with the header \<^verbatim>\<open>Email\<close> loads as the empty set.\<close>

lemma capitalised_header_loads_nothing:
  "parse_blacklist ul (ascii ''Email'') [[ascii ''Email''], [ascii ''bob@example.org'']] = {}"
  by (simp add: loader_eval text_eval)

text \<open>
  Claim C8 does not hold of the code. Whether a file has a header is decided by looking
  for \<^verbatim>\<open>email\<close> in its first line (line 116). A headerless single-column file whose
  first line contains these letters, here inside an address, is read with
  \<^verbatim>\<open>csv.DictReader\<close>: its first row is taken for the header, no column is named
  \<^verbatim>\<open>email\<close>, and the loader returns the empty set, so that the run mails an address
  that the file lists.
\<close>

theorem headerless_file_read_as_headered:
  "parse_blacklist ul (ascii ''bob@emailhost.org'')
     [[ascii ''bob@emailhost.org''], [ascii ''al@example.org'']] = {}
   \<and> results_file (send_newsletters ul example_config False
        (run_with (Inr (ascii ''bob@emailhost.org'',
                        [[ascii ''bob@emailhost.org''], [ascii ''al@example.org'']]))
           None [(\<lparr>email = Some (ascii ''al@example.org'')\<rparr>, script [])])
        init_sender) =
     Some [\<lparr>address = ascii ''al@example.org'', status = ''success'', detail = []\<rparr>]"
proof -
  have e: "parse_blacklist ul (ascii ''bob@emailhost.org'')
     [[ascii ''bob@emailhost.org''], [ascii ''al@example.org'']] = {}"
    by (simp add: loader_eval text_eval)
  then show ?thesis
    by (simp add: start_eval text_eval run_eval upt_three Let_def)
qed

end
